theory Spec2Isabelle
  imports Main
begin

section \<open>MySQL persistence for the Aedes broker: data model\<close>

text \<open>
  The development follows \<^verbatim>\<open>src/index.js\<close>.  The component keeps no broker state
  of its own: every operation checks the readiness flag, sends one parameterised SQL
  statement through the connection pool and maps the rows of the answer.  The embedding
  therefore has two layers:
  \<^item> the backing store: the five relations created by \<^verbatim>\<open>_createTables\<close>, with the
    meaning of the SQL statements that the source sends (unique keys, auto-increment
    ids, NULL comparisons, \<^verbatim>\<open>REGEXP\<close>);
  \<^item> the component: one definition per prototype method, with the source's name.

  What the store does with a statement is not in the source; the model takes it from
  the documented behaviour of the servers that the package names (MySQL from 5.7,
  MariaDB from 10.2) and of the driver \<^verbatim>\<open>mysql2\<close>:
  \<^item> the tables are declared \<^verbatim>\<open>DEFAULT CHARSET=utf8mb4\<close> without a collation, so the
    topic columns are compared under the default collation of the server.  The store
    carries that collation as its weight function: two topics are equal for \<^verbatim>\<open>=\<close>,
    \<^verbatim>\<open>IN\<close> and a unique key when their weights are equal.  \<^verbatim>\<open>REGEXP\<close> on such a
    column does not distinguish the case of letters;
  \<^item> \<^verbatim>\<open>pool.execute\<close> prepares the statement text on the server as it is written: a
    placeholder stands for one value, never for a list of rows, and a parameter that is
    \<^verbatim>\<open>undefined\<close> is refused by the driver before anything is sent;
  \<^item> the server runs in strict mode (the default): a value that does not fit its column
    is refused.  The widths are checked where a row of \<^verbatim>\<open>aedes_retained\<close> is
    written; elsewhere values are taken to fit their columns;
  \<^item> identifiers (\<^verbatim>\<open>client_id\<close>, \<^verbatim>\<open>broker_id\<close>) are compared as written;
  \<^item> a \<^verbatim>\<open>SELECT\<close> without \<^verbatim>\<open>ORDER BY\<close> returns the rows in the order of their
    insertion, the store answers every statement (no lost connection), and a statement
    takes effect at once.
\<close>

subsection \<open>Errors and results\<close>

text \<open>
  \<open>Error m\<close> is the JavaScript \<^verbatim>\<open>new Error(m)\<close> made by the component itself;
  \<open>StoreError f\<close> is a rejection of \<^verbatim>\<open>pool.execute\<close>, handed to the callback
  unchanged by \<^verbatim>\<open>.catch(cb)\<close>.  A callback \<^verbatim>\<open>cb(err)\<close> is \<open>Inl err\<close>, a callback
  \<^verbatim>\<open>cb(null, v)\<close> is \<open>Inr v\<close>.  A readable stream is the list of the objects pushed
  before \<^verbatim>\<open>push(null)\<close>, or \<open>Inl err\<close> when it is destroyed with an error.
\<close>

datatype store_failure =
    BadRegexp            \<comment> \<open>the pattern given to \<^verbatim>\<open>REGEXP\<close> does not compile\<close>
  | OutsideModel         \<comment> \<open>pattern or text that this development does not interpret\<close>
  | UndefinedParameter   \<comment> \<open>the driver refuses a bind parameter that is \<^verbatim>\<open>undefined\<close>\<close>
  | ValueRefused         \<comment> \<open>a value does not fit its column\<close>
  | PoolClosed           \<comment> \<open>the pool is absent or has been ended\<close>
  | NoSuchTable string   \<comment> \<open>a statement names a relation that does not exist\<close>
  | BadStatement         \<comment> \<open>the statement text is not SQL (\<^verbatim>\<open>VALUES ?\<close>, an empty \<^verbatim>\<open>WHERE\<close>)\<close>

datatype error = Error string | StoreError store_failure

type_synonym 'a callback = "error + 'a"
type_synonym 'a stream = "error + 'a list"

subsection \<open>Arguments of the operations\<close>

text \<open>
  A client object carries \<^verbatim>\<open>id\<close> and, when it belongs to a broker, \<^verbatim>\<open>broker.id\<close>.
  A packet carries the fields the statements read.  \<open>messageId = None\<close> is a packet
  without the field \<^verbatim>\<open>messageId\<close> (reading it gives \<^verbatim>\<open>undefined\<close>);
  \<^verbatim>\<open>retain\<close> and \<^verbatim>\<open>dup\<close> are only read as \<^verbatim>\<open>packet.retain || false\<close>, so a
  missing flag is \<open>False\<close>.
\<close>

record broker =
  broker_id :: string

record client =
  client_id :: string
  client_broker :: "broker option"

record packet =
  messageId :: "int option"
  topic :: string
  payload :: string
  qos :: nat
  retain :: bool
  dup :: bool

record subscription =
  s_clientId :: string
  s_topic :: string
  s_qos :: nat

subsection \<open>The relations of \<^verbatim>\<open>_createTables\<close>\<close>

record sub_row =
  sub_id :: nat
  sub_client_id :: string
  sub_topic :: string
  sub_qos :: nat
  sub_created_at :: nat

record retained_row =
  ret_id :: nat
  ret_topic :: string
  ret_payload :: string
  ret_qos :: nat
  ret_created_at :: nat

record outgoing_row =
  out_id :: nat
  out_client_id :: string
  out_message_id :: "int option"
  out_topic :: string
  out_payload :: string
  out_qos :: nat
  out_retain_flag :: bool
  out_dup_flag :: bool
  out_created_at :: nat

record incoming_row =
  inc_id :: nat
  inc_client_id :: string
  inc_message_id :: int
  inc_topic :: string
  inc_payload :: string
  inc_qos :: nat
  inc_created_at :: nat

record will_row =
  will_id :: nat
  will_client_id :: string
  will_topic :: string
  will_payload :: string
  will_qos :: nat
  will_retain_flag :: bool
  will_broker_id :: "string option"
  will_created_at :: nat

text \<open>
  A scheduled event of the store: \<^verbatim>\<open>CREATE EVENT name ON SCHEDULE EVERY 1 HOUR DO
  DELETE FROM table WHERE created_at < DATE_SUB(NOW(), INTERVAL n SECOND)\<close>.
\<close>

record event =
  ev_name :: string
  ev_table :: string
  ev_seconds :: int

text \<open>
  The store: a clock in seconds (\<^verbatim>\<open>NOW()\<close>, \<^verbatim>\<open>CURRENT_TIMESTAMP\<close>), the weight
  function of the collation of the topic columns, the five relations in insertion
  order, the next auto-increment id of each, and the events.
\<close>

record db =
  now :: nat
  collation :: "string \<Rightarrow> string"
  aedes_subscriptions :: "sub_row list"
  aedes_retained :: "retained_row list"
  aedes_outgoing :: "outgoing_row list"
  aedes_incoming :: "incoming_row list"
  aedes_will :: "will_row list"
  next_sub_id :: nat
  next_ret_id :: nat
  next_out_id :: nat
  next_inc_id :: nat
  next_will_id :: nat
  events :: "event list"

subsection \<open>SQL comparisons with NULL\<close>

text \<open>
  A comparison with NULL is NULL (\<open>None\<close>), and \<^verbatim>\<open>WHERE\<close> keeps a row only when
  its condition is true.
\<close>

definition sql_eq :: "'a option \<Rightarrow> 'a option \<Rightarrow> bool option" where
  "sql_eq a b = (case a of None \<Rightarrow> None
                 | Some x \<Rightarrow> (case b of None \<Rightarrow> None | Some y \<Rightarrow> Some (x = y)))"

definition sql_in :: "'a option \<Rightarrow> 'a list \<Rightarrow> bool option" where
  "sql_in a xs = (case a of None \<Rightarrow> None | Some x \<Rightarrow> Some (x \<in> set xs))"

definition sql_true :: "bool option \<Rightarrow> bool" where
  "sql_true b = (b = Some True)"

subsection \<open>Insert with \<^verbatim>\<open>ON DUPLICATE KEY UPDATE\<close>\<close>

text \<open>
  \<open>upsert same upd new rows\<close>: when a row has the unique key of the new row
  (\<open>same\<close>), the listed columns of that row are overwritten (\<open>upd\<close>); otherwise the new
  row is appended.
\<close>

definition upsert :: "('r \<Rightarrow> bool) \<Rightarrow> ('r \<Rightarrow> 'r) \<Rightarrow> 'r \<Rightarrow> 'r list \<Rightarrow> 'r list" where
  "upsert same upd new rows =
     (if list_ex same rows then map (\<lambda>r. if same r then upd r else r) rows
      else rows @ [new])"

subsection \<open>Values and their columns\<close>

text \<open>\<^verbatim>\<open>VARCHAR(n)\<close> holds at most \<open>n\<close> characters, \<^verbatim>\<open>TINYINT\<close> numbers up to 127.\<close>

definition varchar :: "nat \<Rightarrow> string \<Rightarrow> bool" where
  "varchar n v \<longleftrightarrow> length v \<le> n"

definition tinyint :: "nat \<Rightarrow> bool" where
  "tinyint v \<longleftrightarrow> v \<le> 127"

subsection \<open>Letter case\<close>

text \<open>
  The default collations of \<^verbatim>\<open>utf8mb4\<close> do not distinguish the case of letters.
  \<open>fold_case\<close> takes a capital letter of ASCII to its small letter.  On text of
  printable ASCII characters (codes 32 to 126: no control character, nothing beyond
  ASCII) this is all that the engines of \<^verbatim>\<open>REGEXP\<close> ignore; on other text they
  differ from each other (letters beyond ASCII, line terminators).  The collations
  ignore the same there, except that some of them also ignore spaces at the end of a
  text.  A collation \<open>ignores_case\<close> when, on printable text that does not end in a
  space, equal weights mean equality up to letter case.
\<close>

definition fold_case :: "char \<Rightarrow> char" where
  "fold_case c =
     (case map_of (zip ''ABCDEFGHIJKLMNOPQRSTUVWXYZ'' ''abcdefghijklmnopqrstuvwxyz'') c of
        Some l \<Rightarrow> l
      | None \<Rightarrow> c)"

definition printable :: "char \<Rightarrow> bool" where
  "printable c \<longleftrightarrow> 32 \<le> (of_char c :: nat) \<and> (of_char c :: nat) \<le> 126"

definition plain :: "string \<Rightarrow> bool" where
  "plain t = list_all printable t"

definition trimmed :: "string \<Rightarrow> bool" where
  "trimmed t \<longleftrightarrow> t = [] \<or> last t \<noteq> CHR '' ''"

definition same_text :: "string \<Rightarrow> string \<Rightarrow> bool" where
  "same_text a b \<longleftrightarrow> map fold_case a = map fold_case b"

definition ignores_case :: "(string \<Rightarrow> string) \<Rightarrow> bool" where
  "ignores_case w \<longleftrightarrow>
     (\<forall>a b. plain a \<and> trimmed a \<and> plain b \<and> trimmed b \<longrightarrow> (w a = w b) = same_text a b)"


section \<open>The pattern language of \<^verbatim>\<open>REGEXP\<close>\<close>

text \<open>
  \<^verbatim>\<open>topic REGEXP ?\<close> is true when the pattern matches some substring of the topic.
  The source builds the pattern as text, so the store model has to read that text.  It
  interprets the part of the pattern language that the regular-expression engines of
  MySQL 5.7, MySQL 8 and MariaDB have in common: ordinary characters, \<^verbatim>\<open>.\<close>, the
  anchors \<^verbatim>\<open>^\<close> and \<^verbatim>\<open>$\<close>, groups, \<^verbatim>\<open>|\<close>, the repetitions \<^verbatim>\<open>*\<close> \<^verbatim>\<open>+\<close>
  \<^verbatim>\<open>?\<close> after an atom, and bracket expressions that list plain characters, negated or
  not.  A pattern with anything else (a backslash, a brace, a lone \<^verbatim>\<open>]\<close>, a range or
  class in brackets, a repetition without an atom before it, an empty branch) is
  \<open>Unsupported\<close>: the engines differ there and the model says nothing.  An unclosed
  group or bracket and a \<^verbatim>\<open>)\<close> without its \<^verbatim>\<open>(\<close> are errors of every engine.  In
  the model \<^verbatim>\<open>.\<close> matches every character, \<^verbatim>\<open>$\<close> only the end of the topic, and a
  character of the pattern matches a character of the topic when the two are equal up
  to letter case.  The engines agree on this for printable text only, so a condition
  in which a pattern or the column of some row is not printable text is outside the
  model as well.
\<close>

datatype rx =
    Empty | Lit char | AnyChar | Bracket bool "char list" | Bol | Eol
  | Cat rx rx | Alt rx rx | Star rx

datatype 'a parsed = Parsed 'a | SyntaxError | Unsupported

subsection \<open>Reading a pattern\<close>

text \<open>
  A frame is a group being read: its finished branches, the atoms of the branch being
  read (last one first), and whether the last atom may take a repetition.
\<close>

type_synonym frame = "rx list \<times> rx list \<times> bool"

datatype mode = Normal | BrOpen | BrBody bool "char list"

definition mk_cat :: "rx list \<Rightarrow> rx" where
  "mk_cat atoms = foldr Cat atoms Empty"

fun mk_alt :: "rx list \<Rightarrow> rx" where
  "mk_alt [] = Empty"
| "mk_alt [b] = b"
| "mk_alt (b # bs) = Alt b (mk_alt bs)"

definition close_frame :: "frame \<Rightarrow> rx option" where
  "close_frame f =
     (case f of (alts, cur, rep) \<Rightarrow>
        if cur = [] then None else Some (mk_alt (alts @ [mk_cat (rev cur)])))"

definition repeat :: "char \<Rightarrow> rx \<Rightarrow> rx" where
  "repeat c a =
     (if c = CHR ''*'' then Star a
      else if c = CHR ''+'' then Cat a (Star a)
      else Alt a Empty)"

definition bracket_plain :: "char \<Rightarrow> bool" where
  "bracket_plain c \<longleftrightarrow> c \<notin> set ''[]-^&'' \<and> c \<noteq> CHR 0x5C"

fun rx_parse :: "mode \<Rightarrow> frame list \<Rightarrow> string \<Rightarrow> rx parsed" where
  "rx_parse m st [] =
     (case m of
        Normal \<Rightarrow> (case st of
                     [f] \<Rightarrow> (case close_frame f of Some r \<Rightarrow> Parsed r | None \<Rightarrow> Unsupported)
                   | _ \<Rightarrow> SyntaxError)
      | _ \<Rightarrow> SyntaxError)"
| "rx_parse Normal [] (c # cs) = SyntaxError"
| "rx_parse Normal ((alts, cur, rep) # up) (c # cs) =
     (if c = CHR ''('' then rx_parse Normal (([], [], False) # (alts, cur, rep) # up) cs
      else if c = CHR '')'' then
        (case up of
           [] \<Rightarrow> SyntaxError
         | (alts', cur', rep') # up' \<Rightarrow>
             (case close_frame (alts, cur, rep) of
                None \<Rightarrow> Unsupported
              | Some r \<Rightarrow> rx_parse Normal ((alts', r # cur', True) # up') cs))
      else if c = CHR ''|'' then
        (if cur = [] then Unsupported
         else rx_parse Normal ((alts @ [mk_cat (rev cur)], [], False) # up) cs)
      else if c = CHR ''*'' \<or> c = CHR ''+'' \<or> c = CHR ''?'' then
        (case cur of
           [] \<Rightarrow> Unsupported
         | a # cur' \<Rightarrow> if rep then rx_parse Normal ((alts, repeat c a # cur', False) # up) cs
                       else Unsupported)
      else if c = CHR ''['' then rx_parse BrOpen ((alts, cur, rep) # up) cs
      else if c = CHR ''.'' then rx_parse Normal ((alts, AnyChar # cur, True) # up) cs
      else if c = CHR ''^'' then rx_parse Normal ((alts, Bol # cur, False) # up) cs
      else if c = CHR ''$'' then rx_parse Normal ((alts, Eol # cur, False) # up) cs
      else if c = CHR 0x5C \<or> c = CHR ''{'' \<or> c = CHR ''}'' \<or> c = CHR '']'' then Unsupported
      else rx_parse Normal ((alts, Lit c # cur, True) # up) cs)"
| "rx_parse BrOpen st (c # cs) =
     (if c = CHR ''^'' then rx_parse (BrBody True []) st cs
      else if bracket_plain c then rx_parse (BrBody False [c]) st cs
      else Unsupported)"
| "rx_parse (BrBody neg items) st (c # cs) =
     (if c = CHR '']'' then
        (case st of
           [] \<Rightarrow> SyntaxError
         | (alts, cur, rep) # up \<Rightarrow>
             if items = [] then Unsupported
             else rx_parse Normal ((alts, Bracket neg (rev items) # cur, True) # up) cs)
      else if bracket_plain c then rx_parse (BrBody neg (c # items)) st cs
      else Unsupported)"

definition regexp_compile :: "string \<Rightarrow> rx parsed" where
  "regexp_compile pat = rx_parse Normal [([], [], False)] pat"

subsection \<open>Matching\<close>

text \<open>
  \<open>rx_run n r s\<close>: the topic has \<open>n\<close> characters, \<open>s\<close> is what is left of it at the
  current position; the result lists what can be left after \<open>r\<close> has matched from
  there.  A repetition goes round again only after a round that consumed a character.
\<close>

fun rx_run :: "nat \<Rightarrow> rx \<Rightarrow> string \<Rightarrow> string list" where
  "rx_run n Empty s = [s]"
| "rx_run n (Lit c) s =
     (case s of [] \<Rightarrow> [] | d # s' \<Rightarrow> if fold_case d = fold_case c then [s'] else [])"
| "rx_run n AnyChar s = (case s of [] \<Rightarrow> [] | d # s' \<Rightarrow> [s'])"
| "rx_run n (Bracket neg cs) s =
     (case s of
        [] \<Rightarrow> []
      | d # s' \<Rightarrow> if (fold_case d \<in> set (map fold_case cs)) \<noteq> neg then [s'] else [])"
| "rx_run n Bol s = (if length s = n then [s] else [])"
| "rx_run n Eol s = (if s = [] then [s] else [])"
| "rx_run n (Cat r1 r2) s = concat (map (rx_run n r2) (rx_run n r1 s))"
| "rx_run n (Alt r1 r2) s = rx_run n r1 s @ rx_run n r2 s"
| "rx_run n (Star r) s =
     s # concat (map (\<lambda>s'. if length s' < length s then rx_run n (Star r) s' else [])
                     (rx_run n r s))"

primrec tails :: "'a list \<Rightarrow> 'a list list" where
  "tails [] = [[]]"
| "tails (x # xs) = (x # xs) # tails xs"

definition regexp_search :: "rx \<Rightarrow> string \<Rightarrow> bool" where
  "regexp_search r text = list_ex (\<lambda>s. rx_run (length text) r s \<noteq> []) (tails text)"

text \<open>
  The condition \<^verbatim>\<open>topic REGEXP ? OR topic REGEXP ? ...\<close> of a statement: all patterns
  are compiled before any row is looked at.
\<close>

fun compile_all :: "string list \<Rightarrow> rx list parsed" where
  "compile_all [] = Parsed []"
| "compile_all (p # ps) =
     (case regexp_compile p of
        Unsupported \<Rightarrow> Unsupported
      | SyntaxError \<Rightarrow> (case compile_all ps of Unsupported \<Rightarrow> Unsupported | _ \<Rightarrow> SyntaxError)
      | Parsed r \<Rightarrow> (case compile_all ps of
                       Parsed rs \<Rightarrow> Parsed (r # rs)
                     | SyntaxError \<Rightarrow> SyntaxError
                     | Unsupported \<Rightarrow> Unsupported))"

definition where_regexp :: "string list \<Rightarrow> ('row \<Rightarrow> string) \<Rightarrow> 'row list \<Rightarrow> store_failure + 'row list" where
  "where_regexp pats col rows =
     (if pats = [] then Inl BadStatement
      else if \<not> (list_all plain pats \<and> list_all (\<lambda>row. plain (col row)) rows)
      then Inl OutsideModel
      else (case compile_all pats of
              Parsed rs \<Rightarrow> Inr (filter (\<lambda>row. list_ex (\<lambda>r. regexp_search r (col row)) rs) rows)
            | SyntaxError \<Rightarrow> Inl BadRegexp
            | Unsupported \<Rightarrow> Inl OutsideModel))"


section \<open>The statements sent to the store\<close>

text \<open>
  Each definition is the meaning of one SQL text of the source on the store; the name
  says which method sends it.  The result is \<open>Inl\<close> a failure or \<open>Inr\<close> the rows
  (or \<open>()\<close> for a statement without rows), with the store after the statement.
\<close>

type_synonym 'r statement = "db \<Rightarrow> (store_failure + 'r) \<times> db"

subsection \<open>\<^verbatim>\<open>aedes_retained\<close>: unique topic\<close>

definition sql_storeRetained :: "string \<Rightarrow> string \<Rightarrow> nat \<Rightarrow> unit statement" where
  "sql_storeRetained t p q d =
     (if \<not> (varchar 512 t \<and> tinyint q) then (Inl ValueRefused, d)
      else (Inr (),
            d\<lparr>aedes_retained :=
                 upsert (\<lambda>r. collation d (ret_topic r) = collation d t)
                        (\<lambda>r. r\<lparr>ret_payload := p, ret_qos := q, ret_created_at := now d\<rparr>)
                        \<lparr>ret_id = next_ret_id d, ret_topic = t, ret_payload = p, ret_qos = q,
                         ret_created_at = now d\<rparr>
                        (aedes_retained d),
               next_ret_id := Suc (next_ret_id d)\<rparr>))"

definition sql_retainedMatching :: "string list \<Rightarrow> retained_row list statement" where
  "sql_retainedMatching pats d = (where_regexp pats ret_topic (aedes_retained d), d)"

subsection \<open>\<^verbatim>\<open>aedes_subscriptions\<close>: unique (client_id, topic)\<close>

text \<open>
  \<^verbatim>\<open>INSERT INTO aedes_subscriptions (client_id, topic, qos) VALUES ? ON DUPLICATE KEY
  UPDATE ...\<close> with the list of the rows as its one parameter.  The text goes to the
  server as it is, and there a placeholder cannot stand for the rows of \<^verbatim>\<open>VALUES\<close>:
  the statement is refused whatever the list is, and no row is written.
\<close>

definition sql_addSubscriptions :: "(string \<times> string \<times> nat) list \<Rightarrow> unit statement" where
  "sql_addSubscriptions vals d = (Inl BadStatement, d)"

definition sql_removeSubscriptions :: "string \<Rightarrow> string list \<Rightarrow> unit statement" where
  "sql_removeSubscriptions c topics d =
     (Inr (),
      d\<lparr>aedes_subscriptions :=
           filter (\<lambda>r. \<not> (sub_client_id r = c \<and>
                           collation d (sub_topic r) \<in> set (map (collation d) topics)))
                  (aedes_subscriptions d)\<rparr>)"

definition sql_subscriptionsByClient :: "string \<Rightarrow> sub_row list statement" where
  "sql_subscriptionsByClient c d =
     (Inr (filter (\<lambda>r. sub_client_id r = c) (aedes_subscriptions d)), d)"

definition sql_countSubscriptions :: "nat statement" where
  "sql_countSubscriptions d = (Inr (length (aedes_subscriptions d)), d)"

definition sql_countClients :: "nat statement" where
  "sql_countClients d =
     (Inr (length (remdups (map sub_client_id (aedes_subscriptions d)))), d)"

definition sql_subscriptionsByTopic :: "string \<Rightarrow> sub_row list statement" where
  "sql_subscriptionsByTopic pat d = (where_regexp [pat] sub_topic (aedes_subscriptions d), d)"

definition sql_cleanSubscriptions :: "string \<Rightarrow> unit statement" where
  "sql_cleanSubscriptions c d =
     (Inr (),
      d\<lparr>aedes_subscriptions := filter (\<lambda>r. sub_client_id r \<noteq> c) (aedes_subscriptions d)\<rparr>)"

definition sql_getClientList :: "string \<Rightarrow> string list statement" where
  "sql_getClientList t d =
     (Inr (remdups (map sub_client_id
                      (filter (\<lambda>r. collation d (sub_topic r) = collation d t)
                              (aedes_subscriptions d)))),
      d)"

subsection \<open>\<^verbatim>\<open>aedes_outgoing\<close>: no unique key but the auto-increment id\<close>

text \<open>
  \<^verbatim>\<open>INSERT INTO aedes_outgoing (client_id, message_id, topic, payload, qos, retain_flag,
  dup_flag) VALUES ?\<close> with the list of the rows as its one parameter: as for the
  subscriptions, the server refuses the text and no row is written.  A row of the list
  is client_id, message_id, topic, payload, qos, retain_flag, dup_flag.
\<close>

type_synonym outgoing_values = "string \<times> int option \<times> string \<times> string \<times> nat \<times> bool \<times> bool"

definition sql_outgoingEnqueue :: "outgoing_values list \<Rightarrow> unit statement" where
  "sql_outgoingEnqueue vals d = (Inl BadStatement, d)"

definition sql_outgoingUpdate :: "int \<Rightarrow> bool \<Rightarrow> string \<Rightarrow> string \<Rightarrow> string \<Rightarrow> unit statement" where
  "sql_outgoingUpdate m du c tp p d =
     (Inr (),
      d\<lparr>aedes_outgoing :=
           map (\<lambda>r. if out_client_id r = c \<and> collation d (out_topic r) = collation d tp \<and>
                       out_payload r = p
                    then r\<lparr>out_message_id := Some m, out_dup_flag := du\<rparr> else r)
               (aedes_outgoing d)\<rparr>)"

definition sql_outgoingClearMessageId :: "string \<Rightarrow> int \<Rightarrow> unit statement" where
  "sql_outgoingClearMessageId c m d =
     (Inr (),
      d\<lparr>aedes_outgoing :=
           filter (\<lambda>r. \<not> (out_client_id r = c \<and> sql_true (sql_eq (out_message_id r) (Some m))))
                  (aedes_outgoing d)\<rparr>)"

definition sql_outgoingStream :: "string \<Rightarrow> outgoing_row list statement" where
  "sql_outgoingStream c d =
     (Inr (sort_key out_id (filter (\<lambda>r. out_client_id r = c) (aedes_outgoing d))), d)"

subsection \<open>\<^verbatim>\<open>aedes_incoming\<close>: unique (client_id, message_id), message_id not null\<close>

definition sql_incomingStorePacket :: "string \<Rightarrow> int \<Rightarrow> string \<Rightarrow> string \<Rightarrow> nat \<Rightarrow> unit statement" where
  "sql_incomingStorePacket c m tp p q d =
     (Inr (),
      d\<lparr>aedes_incoming :=
           upsert (\<lambda>r. inc_client_id r = c \<and> inc_message_id r = m)
                  (\<lambda>r. r\<lparr>inc_topic := tp, inc_payload := p, inc_qos := q\<rparr>)
                  \<lparr>inc_id = next_inc_id d, inc_client_id = c, inc_message_id = m,
                   inc_topic = tp, inc_payload = p, inc_qos = q,
                   inc_created_at = now d\<rparr>
                  (aedes_incoming d),
         next_inc_id := Suc (next_inc_id d)\<rparr>)"

definition sql_incomingGetPacket :: "string \<Rightarrow> int \<Rightarrow> incoming_row list statement" where
  "sql_incomingGetPacket c m d =
     (Inr (filter (\<lambda>r. inc_client_id r = c \<and> inc_message_id r = m) (aedes_incoming d)), d)"

definition sql_incomingDelPacket :: "string \<Rightarrow> int \<Rightarrow> unit statement" where
  "sql_incomingDelPacket c m d =
     (Inr (),
      d\<lparr>aedes_incoming :=
           filter (\<lambda>r. \<not> (inc_client_id r = c \<and> inc_message_id r = m)) (aedes_incoming d)\<rparr>)"

subsection \<open>\<^verbatim>\<open>aedes_will\<close>: unique client_id, broker_id nullable\<close>

definition sql_putWill :: "string \<Rightarrow> string \<Rightarrow> string \<Rightarrow> nat \<Rightarrow> bool \<Rightarrow> string option \<Rightarrow> unit statement" where
  "sql_putWill c tp p q r b d =
     (Inr (),
      d\<lparr>aedes_will :=
           upsert (\<lambda>w. will_client_id w = c)
                  (\<lambda>w. w\<lparr>will_topic := tp, will_payload := p, will_qos := q,
                         will_retain_flag := r, will_broker_id := b,
                         will_created_at := now d\<rparr>)
                  \<lparr>will_id = next_will_id d, will_client_id = c, will_topic = tp,
                   will_payload = p, will_qos = q, will_retain_flag = r, will_broker_id = b,
                   will_created_at = now d\<rparr>
                  (aedes_will d),
         next_will_id := Suc (next_will_id d)\<rparr>)"

definition sql_getWill :: "string \<Rightarrow> will_row list statement" where
  "sql_getWill c d = (Inr (filter (\<lambda>w. will_client_id w = c) (aedes_will d)), d)"

definition sql_delWill :: "string \<Rightarrow> unit statement" where
  "sql_delWill c d =
     (Inr (), d\<lparr>aedes_will := filter (\<lambda>w. will_client_id w \<noteq> c) (aedes_will d)\<rparr>)"

definition sql_streamWill :: "string list \<Rightarrow> will_row list statement" where
  "sql_streamWill ids d =
     (Inr (filter (\<lambda>w. sql_true (sql_in (will_broker_id w) ids)) (aedes_will d)), d)"

subsection \<open>Schema and scheduled events\<close>

text \<open>
  \<^verbatim>\<open>CREATE TABLE IF NOT EXISTS\<close> of one of the five relations: the relations of the
  model always exist (empty when new), so the statement changes nothing.
\<close>

definition sql_createTable :: "unit statement" where
  "sql_createTable d = (Inr (), d)"

definition sql_createEvent :: "event \<Rightarrow> unit statement" where
  "sql_createEvent ev d =
     (Inr (),
      if list_ex (\<lambda>e. ev_name e = ev_name ev) (events d) then d
      else d\<lparr>events := events d @ [ev]\<rparr>)"

text \<open>
  What the scheduler does when an event is due: the \<^verbatim>\<open>DELETE\<close> of the event, on the
  relation that its text names.  This is a step of the store, not of the component.
\<close>

definition expired :: "db \<Rightarrow> int \<Rightarrow> nat \<Rightarrow> bool" where
  "expired d secs created \<longleftrightarrow> int created < int (now d) - secs"

definition fire_event :: "event \<Rightarrow> unit statement" where
  "fire_event ev d =
     (if ev_table ev = ''aedes_subscriptions'' then
        (Inr (), d\<lparr>aedes_subscriptions :=
                     filter (\<lambda>r. \<not> expired d (ev_seconds ev) (sub_created_at r)) (aedes_subscriptions d)\<rparr>)
      else if ev_table ev = ''aedes_retained'' then
        (Inr (), d\<lparr>aedes_retained :=
                     filter (\<lambda>r. \<not> expired d (ev_seconds ev) (ret_created_at r)) (aedes_retained d)\<rparr>)
      else if ev_table ev = ''aedes_outgoing'' then
        (Inr (), d\<lparr>aedes_outgoing :=
                     filter (\<lambda>r. \<not> expired d (ev_seconds ev) (out_created_at r)) (aedes_outgoing d)\<rparr>)
      else if ev_table ev = ''aedes_incoming'' then
        (Inr (), d\<lparr>aedes_incoming :=
                     filter (\<lambda>r. \<not> expired d (ev_seconds ev) (inc_created_at r)) (aedes_incoming d)\<rparr>)
      else if ev_table ev = ''aedes_will'' then
        (Inr (), d\<lparr>aedes_will :=
                     filter (\<lambda>r. \<not> expired d (ev_seconds ev) (will_created_at r)) (aedes_will d)\<rparr>)
      else (Inl (NoSuchTable (ev_table ev)), d))"


section \<open>The component\<close>

subsection \<open>State\<close>

text \<open>
  The fields of the object that the methods read (\<^verbatim>\<open>ttl.subscriptions\<close>,
  \<^verbatim>\<open>pool\<close>, \<^verbatim>\<open>_ready\<close>, \<^verbatim>\<open>_closed\<close>), the store behind the pool, and the
  list of the statements sent so far, which makes "no I/O" a statement about the state.
  \<open>awaiting\<close> says that \<^verbatim>\<open>_setup\<close> is suspended at
  \<^verbatim>\<open>await this._createTables()\<close> with every statement of \<^verbatim>\<open>_createTables\<close>
  carried out: the line \<^verbatim>\<open>this._ready = true\<close> has still to run.
\<close>

datatype pool_state = PoolOpen | PoolEnded

datatype stmt =
    CreateTable string | CreateEvent
  | InsertRetained | SelectRetained
  | InsertSubscriptions | DeleteSubscriptions | SelectSubscriptionsByClient
  | CountSubscriptions | CountClients | SelectSubscriptionsByTopic | DeleteClientSubscriptions
  | InsertOutgoing | UpdateOutgoing | DeleteOutgoing | SelectOutgoing
  | InsertIncoming | SelectIncoming | DeleteIncoming
  | InsertWill | SelectWill | DeleteWill | SelectWillsByBroker
  | SelectClientList

record persistence =
  ttl_subscriptions :: "int option"
  pool :: "pool_state option"
  ready :: bool
  closed :: bool
  awaiting :: bool
  store :: db
  io :: "stmt list"

text \<open>
  \<^verbatim>\<open>this.pool.execute(query, params)\<close>: the statement runs on the store and is
  recorded; without an open pool nothing is sent.
\<close>

definition pool_execute :: "stmt \<Rightarrow> 'r statement \<Rightarrow> persistence \<Rightarrow> (store_failure + 'r) \<times> persistence" where
  "pool_execute q run s =
     (case pool s of
        Some PoolOpen \<Rightarrow> (case run (store s) of (r, d) \<Rightarrow> (r, s\<lparr>store := d, io := io s @ [q]\<rparr>))
      | _ \<Rightarrow> (Inl PoolClosed, s))"

text \<open>
  The same with a parameter read from a field that may be missing: the pool hands out
  a connection (or fails, when it has been ended), and the driver then refuses a
  parameter that is \<^verbatim>\<open>undefined\<close> before the statement is sent.
\<close>

definition pool_execute_with :: "'p option \<Rightarrow> stmt \<Rightarrow> ('p \<Rightarrow> 'r statement) \<Rightarrow> persistence \<Rightarrow> (store_failure + 'r) \<times> persistence" where
  "pool_execute_with param q run s =
     (case pool s of
        Some PoolOpen \<Rightarrow> (case param of
                           None \<Rightarrow> (Inl UndefinedParameter, s)
                         | Some v \<Rightarrow> pool_execute q (run v) s)
      | _ \<Rightarrow> (Inl PoolClosed, s))"

text \<open>\<^verbatim>\<open>promise.then(f).catch(cb)\<close>, where \<open>f\<close> calls \<^verbatim>\<open>cb\<close> with its outcome.\<close>

definition then_catch :: "(store_failure + 'r) \<times> persistence \<Rightarrow> ('r \<Rightarrow> 'a callback) \<Rightarrow> 'a callback \<times> persistence" where
  "then_catch r f =
     (case r of (Inl e, s) \<Rightarrow> (Inl (StoreError e), s) | (Inr v, s) \<Rightarrow> (f v, s))"

definition not_ready :: error where
  "not_ready = Error ''MySQL persistence not ready''"

subsection \<open>Construction, provisioning, shutdown\<close>

text \<open>
  Of the options, the connection settings only say where the store is, and
  \<^verbatim>\<open>ttl.packets\<close> is kept by the constructor but read by no method; the one option
  with an effect on the statements is \<^verbatim>\<open>ttl.subscriptions\<close>.
\<close>

record opts =
  opt_ttl_subscriptions :: "int option"

text \<open>
  The constructor, up to its return.  \<^verbatim>\<open>this.ttl.subscriptions || null\<close> turns 0
  into null.  The call \<^verbatim>\<open>this._setup()\<close> at its end runs \<^verbatim>\<open>_setup\<close> as far as the
  first \<^verbatim>\<open>await\<close>, so the pool exists when the constructor returns; the rest of
  \<^verbatim>\<open>_setup\<close> runs later, in the two steps \<open>setup_statements\<close> and
  \<open>setup_resume\<close>.  The second argument is the store the pool connects to.
\<close>

definition AedesPersistenceMySQL :: "opts \<Rightarrow> db \<Rightarrow> persistence" where
  "AedesPersistenceMySQL os d =
     \<lparr>ttl_subscriptions = (case opt_ttl_subscriptions os of
                             None \<Rightarrow> None | Some n \<Rightarrow> (if n = 0 then None else Some n)),
      pool = Some PoolOpen, ready = False, closed = False, awaiting = False, store = d,
      io = []\<rparr>"

text \<open>
  \<^verbatim>\<open>_createTables\<close>: the statements go through one connection taken from the pool,
  the first failure ends the method.  The event text names the relation
  \<^verbatim>\<open>subscriptions\<close>.
\<close>

definition cleanup_event :: "int \<Rightarrow> event" where
  "cleanup_event n =
     \<lparr>ev_name = ''aedes_cleanup_subscriptions'', ev_table = ''subscriptions'', ev_seconds = n\<rparr>"

definition seq_execute :: "(store_failure + unit) \<times> persistence \<Rightarrow> stmt \<Rightarrow> unit statement \<Rightarrow> (store_failure + unit) \<times> persistence" where
  "seq_execute r q run =
     (case r of (Inl e, s) \<Rightarrow> (Inl e, s) | (Inr u, s) \<Rightarrow> pool_execute q run s)"

definition createTables :: "persistence \<Rightarrow> (store_failure + unit) \<times> persistence" where
  "createTables s =
     (let r1 = pool_execute (CreateTable ''aedes_subscriptions'') sql_createTable s;
          r2 = seq_execute r1 (CreateTable ''aedes_retained'') sql_createTable;
          r3 = seq_execute r2 (CreateTable ''aedes_outgoing'') sql_createTable;
          r4 = seq_execute r3 (CreateTable ''aedes_incoming'') sql_createTable;
          r5 = seq_execute r4 (CreateTable ''aedes_will'') sql_createTable
      in (case ttl_subscriptions s of
            None \<Rightarrow> r5
          | Some n \<Rightarrow> if n > 0 then seq_execute r5 CreateEvent (sql_createEvent (cleanup_event n))
                      else r5))"

text \<open>
  The rest of \<^verbatim>\<open>_setup\<close>, which runs in the background after the constructor has
  returned.  Other calls can come in while it waits for the store, so it is two steps:
  \<^item> \<open>setup_statements\<close>: the statements of \<^verbatim>\<open>_createTables\<close> are carried out.  When
    one fails \<^verbatim>\<open>_setup\<close> ends with that error.  Otherwise it stays suspended at its
    \<^verbatim>\<open>await\<close> until the answer to the last statement is delivered;
  \<^item> \<open>setup_resume\<close>: \<^verbatim>\<open>_setup\<close> resumes and runs \<^verbatim>\<open>this._ready = true\<close>; it
    reads no other field before it does.

  \<open>run_setup\<close> is a provisioning that no other call interrupts.
\<close>

definition setup_statements :: "persistence \<Rightarrow> persistence" where
  "setup_statements s =
     (case createTables s of
        (Inr u, s') \<Rightarrow> s'\<lparr>awaiting := True\<rparr>
      | (Inl e, s') \<Rightarrow> s')"

definition setup_resume :: "persistence \<Rightarrow> persistence" where
  "setup_resume s = (if awaiting s then s\<lparr>ready := True, awaiting := False\<rparr> else s)"

definition run_setup :: "persistence \<Rightarrow> persistence" where
  "run_setup s = setup_resume (setup_statements s)"

definition destroy :: "persistence \<Rightarrow> unit callback \<times> persistence" where
  "destroy s =
     (if closed s then (Inr (), s)
      else (let s' = s\<lparr>closed := True, ready := False\<rparr>
            in (case pool s' of
                  Some p \<Rightarrow> (Inr (), s'\<lparr>pool := Some PoolEnded\<rparr>)
                | None \<Rightarrow> (Inr (), s'))))"

subsection \<open>Incoming packets\<close>

record incoming_packet =
  ip_messageId :: int
  ip_topic :: string
  ip_payload :: string
  ip_qos :: nat

text \<open>
  The three methods bind \<^verbatim>\<open>packet.messageId\<close> as they find it, so a packet without
  the field gives the driver an \<^verbatim>\<open>undefined\<close> parameter.
\<close>

definition incomingStorePacket :: "client \<Rightarrow> packet \<Rightarrow> persistence \<Rightarrow> packet callback \<times> persistence" where
  "incomingStorePacket cl pk s =
     (if \<not> ready s then (Inl not_ready, s)
      else then_catch
             (pool_execute_with (messageId pk) InsertIncoming
                (\<lambda>m. sql_incomingStorePacket (client_id cl) m (topic pk) (payload pk) (qos pk)) s)
             (\<lambda>u. Inr pk))"

definition incomingGetPacket :: "client \<Rightarrow> packet \<Rightarrow> persistence \<Rightarrow> incoming_packet callback \<times> persistence" where
  "incomingGetPacket cl pk s =
     (if \<not> ready s then (Inl not_ready, s)
      else then_catch
             (pool_execute_with (messageId pk) SelectIncoming
                (\<lambda>m. sql_incomingGetPacket (client_id cl) m) s)
             (\<lambda>rows. case rows of
                        [] \<Rightarrow> Inl (Error ''Packet not found'')
                      | row # rest \<Rightarrow>
                          Inr \<lparr>ip_messageId = inc_message_id row, ip_topic = inc_topic row,
                               ip_payload = inc_payload row, ip_qos = inc_qos row\<rparr>))"

definition incomingDelPacket :: "client \<Rightarrow> packet \<Rightarrow> persistence \<Rightarrow> packet callback \<times> persistence" where
  "incomingDelPacket cl pk s =
     (if \<not> ready s then (Inl not_ready, s)
      else then_catch
             (pool_execute_with (messageId pk) DeleteIncoming
                (\<lambda>m. sql_incomingDelPacket (client_id cl) m) s)
             (\<lambda>u. Inr pk))"

subsection \<open>Wills\<close>

record will_packet =
  wp_topic :: string
  wp_payload :: string
  wp_qos :: nat
  wp_retain :: bool

record will_entry =
  we_clientId :: string
  we_topic :: string
  we_payload :: string
  we_qos :: nat
  we_retain :: bool
  we_brokerId :: "string option"

definition putWill :: "client \<Rightarrow> packet \<Rightarrow> persistence \<Rightarrow> unit callback \<times> persistence" where
  "putWill cl pk s =
     (if \<not> ready s then (Inl not_ready, s)
      else then_catch
             (pool_execute InsertWill
                (sql_putWill (client_id cl) (topic pk) (payload pk) (qos pk) (retain pk)
                   (case client_broker cl of Some b \<Rightarrow> Some (broker_id b) | None \<Rightarrow> None)) s)
             (\<lambda>u. Inr ()))"

text \<open>\<^verbatim>\<open>cb(null, null)\<close> is \<open>Inr None\<close>.\<close>

definition getWill :: "client \<Rightarrow> persistence \<Rightarrow> will_packet option callback \<times> persistence" where
  "getWill cl s =
     (if \<not> ready s then (Inl not_ready, s)
      else then_catch
             (pool_execute SelectWill (sql_getWill (client_id cl)) s)
             (\<lambda>rows. case rows of
                        [] \<Rightarrow> Inr None
                      | row # rest \<Rightarrow>
                          Inr (Some \<lparr>wp_topic = will_topic row, wp_payload = will_payload row,
                                     wp_qos = will_qos row, wp_retain = will_retain_flag row\<rparr>)))"

definition delWill :: "client \<Rightarrow> persistence \<Rightarrow> unit callback \<times> persistence" where
  "delWill cl s =
     (if \<not> ready s then (Inl not_ready, s)
      else then_catch (pool_execute DeleteWill (sql_delWill (client_id cl)) s) (\<lambda>u. Inr ()))"

text \<open>
  The argument \<^verbatim>\<open>brokers\<close> is an object used as a map; it is given as the list of its
  entries, and \<^verbatim>\<open>Object.keys\<close> is the list of their keys.
\<close>

definition streamWill :: "(string \<times> 'b) list \<Rightarrow> persistence \<Rightarrow> will_entry stream \<times> persistence" where
  "streamWill brokers s =
     (if \<not> ready s then (Inl not_ready, s)
      else (let brokerIds = map fst brokers
            in if length brokerIds = 0 then (Inr [], s)
               else then_catch
                      (pool_execute SelectWillsByBroker (sql_streamWill brokerIds) s)
                      (\<lambda>rows. Inr (map (\<lambda>row. \<lparr>we_clientId = will_client_id row, we_topic = will_topic row,
                                                 we_payload = will_payload row, we_qos = will_qos row,
                                                 we_retain = will_retain_flag row,
                                                 we_brokerId = will_broker_id row\<rparr>) rows))))"


subsection \<open>The topic matcher\<close>

text \<open>
  \<^verbatim>\<open>str.replace(/c/g, rep)\<close> for a one-character pattern: every occurrence of the
  character becomes \<open>rep\<close>, the replacement is not scanned again.
\<close>

definition replace_all :: "char \<Rightarrow> string \<Rightarrow> string \<Rightarrow> string" where
  "replace_all c rep str = concat (map (\<lambda>x. if x = c then rep else [x]) str)"

text \<open>
  \<^verbatim>\<open>'^' + pattern.replace(/\+/g, '[^/]+').replace(/#/g, '.*') + '$'\<close>, as written in
  \<^verbatim>\<open>subscriptionsByTopic\<close> and in \<^verbatim>\<open>createRetainedStreamCombi\<close>.
\<close>

definition sqlPattern :: "string \<Rightarrow> string" where
  "sqlPattern pattern =
     ''^'' @ replace_all (CHR ''#'') ''.*'' (replace_all (CHR ''+'') ''[^/]+'' pattern) @ ''$''"

subsection \<open>A reference matcher for topic filters\<close>

text \<open>
  The characters with a meaning in the pattern language, other than the two that the
  source translates, and the two wildcards.  A filter is \<open>regexp_free\<close> when it has
  none of the former, and \<open>literal\<close> when it has no wildcard either.
\<close>

definition special :: "char \<Rightarrow> bool" where
  "special c \<longleftrightarrow> c \<in> set ''^$.[]()|*?{}'' \<or> c = CHR 0x5C"

definition wildcard :: "char \<Rightarrow> bool" where
  "wildcard c \<longleftrightarrow> c = CHR ''+'' \<or> c = CHR ''#''"

definition regexp_free :: "string \<Rightarrow> bool" where
  "regexp_free f = list_all (\<lambda>c. \<not> special c) f"

text \<open>
  A matcher written on the filter itself, with which the patterns are compared:
  \<^verbatim>\<open>+\<close> stands for one non-empty run of characters other than the separator (the
  specification's "exactly one run of non-separator characters"), \<^verbatim>\<open>#\<close> for whatever
  is left of the topic, and any other character for itself, in either case of a
  letter.
\<close>

fun filter_matches :: "string \<Rightarrow> string \<Rightarrow> bool" where
  "filter_matches [] t = (t = [])"
| "filter_matches (c # f) t =
     (if c = CHR ''+'' then
        list_ex (\<lambda>k. CHR ''/'' \<notin> set (take k t) \<and> filter_matches f (drop k t)) [1..<Suc (length t)]
      else if c = CHR ''#'' then
        list_ex (\<lambda>k. filter_matches f (drop k t)) [0..<Suc (length t)]
      else (case t of [] \<Rightarrow> False | d # t' \<Rightarrow> fold_case d = fold_case c \<and> filter_matches f t'))"

definition literal :: "string \<Rightarrow> bool" where
  "literal f = list_all (\<lambda>c. \<not> special c \<and> \<not> wildcard c) f"

text \<open>Some beginning of the topic is accepted by the filter.\<close>

definition prefix_matches :: "string \<Rightarrow> string \<Rightarrow> bool" where
  "prefix_matches p t = list_ex (\<lambda>k. filter_matches p (take k t)) [0..<Suc (length t)]"

definition separators :: "string \<Rightarrow> nat" where
  "separators t = length (filter (\<lambda>c. c = CHR ''/'') t)"

text \<open>
  What the two replacements of \<open>sqlPattern\<close> make of one character of the filter, as
  text and as the pattern it is read as.
\<close>

definition token :: "char \<Rightarrow> string" where
  "token c = (if c = CHR ''+'' then ''[^/]+'' else if c = CHR ''#'' then ''.*'' else [c])"

definition token_rx :: "char \<Rightarrow> rx" where
  "token_rx c =
     (if c = CHR ''+'' then Cat (Bracket True ''/'') (Star (Bracket True ''/''))
      else if c = CHR ''#'' then Star AnyChar
      else Lit c)"


subsection \<open>Retained messages\<close>

record retained_packet =
  rp_topic :: string
  rp_payload :: string
  rp_qos :: nat

definition storeRetained :: "packet \<Rightarrow> persistence \<Rightarrow> unit callback \<times> persistence" where
  "storeRetained pk s =
     (if \<not> ready s then (Inl not_ready, s)
      else then_catch
             (pool_execute InsertRetained (sql_storeRetained (topic pk) (payload pk) (qos pk)) s)
             (\<lambda>u. Inr ()))"

definition createRetainedStreamCombi :: "string list \<Rightarrow> persistence \<Rightarrow> retained_packet stream \<times> persistence" where
  "createRetainedStreamCombi patterns s =
     (if \<not> ready s then (Inl not_ready, s)
      else (let params = map sqlPattern patterns
            in then_catch
                 (pool_execute SelectRetained (sql_retainedMatching params) s)
                 (\<lambda>rows. Inr (map (\<lambda>row. \<lparr>rp_topic = ret_topic row, rp_payload = ret_payload row,
                                            rp_qos = ret_qos row\<rparr>) rows))))"

definition createRetainedStream :: "string \<Rightarrow> persistence \<Rightarrow> retained_packet stream \<times> persistence" where
  "createRetainedStream pattern s = createRetainedStreamCombi [pattern] s"

subsection \<open>Subscriptions\<close>

record client_sub =
  cs_topic :: string
  cs_qos :: nat

definition addSubscriptions :: "client \<Rightarrow> client_sub list \<Rightarrow> persistence \<Rightarrow> client callback \<times> persistence" where
  "addSubscriptions cl subs s =
     (if \<not> ready s then (Inl not_ready, s)
      else (let vals = map (\<lambda>sub. (client_id cl, cs_topic sub, cs_qos sub)) subs
            in then_catch (pool_execute InsertSubscriptions (sql_addSubscriptions vals) s)
                 (\<lambda>u. Inr cl)))"

definition removeSubscriptions :: "client \<Rightarrow> string list \<Rightarrow> persistence \<Rightarrow> client callback \<times> persistence" where
  "removeSubscriptions cl topics s =
     (if \<not> ready s then (Inl not_ready, s)
      else if length topics = 0 then (Inr cl, s)
      else then_catch
             (pool_execute DeleteSubscriptions (sql_removeSubscriptions (client_id cl) topics) s)
             (\<lambda>u. Inr cl))"

definition subscriptionsByClient :: "client \<Rightarrow> persistence \<Rightarrow> (client_sub list \<times> client) callback \<times> persistence" where
  "subscriptionsByClient cl s =
     (if \<not> ready s then (Inl not_ready, s)
      else then_catch
             (pool_execute SelectSubscriptionsByClient (sql_subscriptionsByClient (client_id cl)) s)
             (\<lambda>rows. Inr (map (\<lambda>row. \<lparr>cs_topic = sub_topic row, cs_qos = sub_qos row\<rparr>) rows, cl)))"

text \<open>\<^verbatim>\<open>Promise.all\<close> of the two counts: both statements are sent.\<close>

definition countOffline :: "persistence \<Rightarrow> (nat \<times> nat) callback \<times> persistence" where
  "countOffline s =
     (if \<not> ready s then (Inl not_ready, s)
      else (let r1 = pool_execute CountSubscriptions sql_countSubscriptions s;
                r2 = pool_execute CountClients sql_countClients (snd r1)
            in (case fst r1 of
                  Inl e \<Rightarrow> (Inl (StoreError e), snd r2)
                | Inr numSubscriptions \<Rightarrow>
                    (case fst r2 of
                       Inl e \<Rightarrow> (Inl (StoreError e), snd r2)
                     | Inr numClients \<Rightarrow> (Inr (numSubscriptions, numClients), snd r2)))))"

definition subscriptionsByTopic :: "string \<Rightarrow> persistence \<Rightarrow> subscription list callback \<times> persistence" where
  "subscriptionsByTopic pattern s =
     (if \<not> ready s then (Inl not_ready, s)
      else then_catch
             (pool_execute SelectSubscriptionsByTopic (sql_subscriptionsByTopic (sqlPattern pattern)) s)
             (\<lambda>rows. Inr (map (\<lambda>row. \<lparr>s_clientId = sub_client_id row, s_topic = sub_topic row,
                                        s_qos = sub_qos row\<rparr>) rows)))"

definition cleanSubscriptions :: "client \<Rightarrow> persistence \<Rightarrow> client callback \<times> persistence" where
  "cleanSubscriptions cl s =
     (if \<not> ready s then (Inl not_ready, s)
      else then_catch
             (pool_execute DeleteClientSubscriptions (sql_cleanSubscriptions (client_id cl)) s)
             (\<lambda>u. Inr cl))"

definition getClientList :: "string \<Rightarrow> persistence \<Rightarrow> string stream \<times> persistence" where
  "getClientList t s =
     (if \<not> ready s then (Inl not_ready, s)
      else then_catch (pool_execute SelectClientList (sql_getClientList t) s) (\<lambda>rows. Inr rows))"

subsection \<open>Outgoing packets\<close>

text \<open>\<^verbatim>\<open>packet.messageId || null\<close>: a missing id and the id 0 are both null.\<close>

definition messageId_or_null :: "int option \<Rightarrow> int option" where
  "messageId_or_null m = (case m of None \<Rightarrow> None | Some i \<Rightarrow> if i = 0 then None else Some i)"

definition outgoingEnqueueCombi :: "subscription list \<Rightarrow> packet \<Rightarrow> persistence \<Rightarrow> unit callback \<times> persistence" where
  "outgoingEnqueueCombi subs pk s =
     (if \<not> ready s then (Inl not_ready, s)
      else (let vals = map (\<lambda>sub. (s_clientId sub, messageId_or_null (messageId pk), topic pk,
                                    payload pk, qos pk, retain pk, dup pk)) subs
            in if length vals = 0 then (Inr (), s)
               else then_catch (pool_execute InsertOutgoing (sql_outgoingEnqueue vals) s)
                      (\<lambda>u. Inr ())))"

definition outgoingEnqueue :: "subscription \<Rightarrow> packet \<Rightarrow> persistence \<Rightarrow> unit callback \<times> persistence" where
  "outgoingEnqueue sub pk s = outgoingEnqueueCombi [sub] pk s"

text \<open>The next two methods bind \<^verbatim>\<open>packet.messageId\<close> without \<^verbatim>\<open>|| null\<close>.\<close>

definition outgoingUpdate :: "client \<Rightarrow> packet \<Rightarrow> persistence \<Rightarrow> unit callback \<times> persistence" where
  "outgoingUpdate cl pk s =
     (if \<not> ready s then (Inl not_ready, s)
      else then_catch
             (pool_execute_with (messageId pk) UpdateOutgoing
                (\<lambda>m. sql_outgoingUpdate m (dup pk) (client_id cl) (topic pk) (payload pk)) s)
             (\<lambda>u. Inr ()))"

definition outgoingClearMessageId :: "client \<Rightarrow> packet \<Rightarrow> persistence \<Rightarrow> packet callback \<times> persistence" where
  "outgoingClearMessageId cl pk s =
     (if \<not> ready s then (Inl not_ready, s)
      else then_catch
             (pool_execute_with (messageId pk) DeleteOutgoing
                (\<lambda>m. sql_outgoingClearMessageId (client_id cl) m) s)
             (\<lambda>u. Inr pk))"

definition outgoing_object :: "outgoing_row \<Rightarrow> packet" where
  "outgoing_object row =
     \<lparr>messageId = out_message_id row, topic = out_topic row, payload = out_payload row,
      qos = out_qos row, retain = out_retain_flag row, dup = out_dup_flag row\<rparr>"

definition outgoingStream :: "client \<Rightarrow> persistence \<Rightarrow> packet stream \<times> persistence" where
  "outgoingStream cl s =
     (if \<not> ready s then (Inl not_ready, s)
      else then_catch (pool_execute SelectOutgoing (sql_outgoingStream (client_id cl)) s)
             (\<lambda>rows. Inr (map outgoing_object rows)))"

subsection \<open>Invariants of the schema\<close>

text \<open>
  The unique keys declared by \<^verbatim>\<open>_createTables\<close>, and the primary key of
  \<^verbatim>\<open>aedes_outgoing\<close>, the one id that a statement reads (\<^verbatim>\<open>ORDER BY id\<close>).
\<close>

definition unique_keys :: "db \<Rightarrow> bool" where
  "unique_keys d \<longleftrightarrow>
     distinct (map (\<lambda>r. (sub_client_id r, collation d (sub_topic r))) (aedes_subscriptions d)) \<and>
     distinct (map (\<lambda>r. collation d (ret_topic r)) (aedes_retained d)) \<and>
     distinct (map (\<lambda>r. (inc_client_id r, inc_message_id r)) (aedes_incoming d)) \<and>
     distinct (map will_client_id (aedes_will d)) \<and>
     distinct (map out_id (aedes_outgoing d))"

text \<open>A statement keeps the constraints of the schema.\<close>

definition keeps :: "'r statement \<Rightarrow> bool" where
  "keeps run \<longleftrightarrow> (\<forall>d. unique_keys d \<longrightarrow> unique_keys (snd (run d)))"

text \<open>A component that serves requests: provisioned, with its pool open.\<close>

definition serving :: "persistence \<Rightarrow> bool" where
  "serving s \<longleftrightarrow> ready s \<and> pool s = Some PoolOpen \<and> unique_keys (store s)"

text \<open>
  The flags and the pool in the states that the constructor, the two steps of
  \<^verbatim>\<open>_setup\<close>, \<open>destroy\<close> and the operations can reach: the pool of a closed
  component has been ended.  A component is \<open>settled\<close> when no provisioning is in
  flight and none has completed after the component was closed.
\<close>

definition lifecycle :: "persistence \<Rightarrow> bool" where
  "lifecycle s \<longleftrightarrow> (closed s \<longrightarrow> pool s \<noteq> Some PoolOpen)"

definition settled :: "persistence \<Rightarrow> bool" where
  "settled s \<longleftrightarrow> \<not> awaiting s \<and> (closed s \<longrightarrow> \<not> ready s)"

definition control :: "persistence \<Rightarrow> pool_state option \<times> bool \<times> bool \<times> bool" where
  "control s = (pool s, ready s, closed s, awaiting s)"

text \<open>
  An empty store.  Its collation compares text up to the case of ASCII letters, as the
  default collations do on printable text.
\<close>

definition empty_db :: db where
  "empty_db =
     \<lparr>now = 0, collation = map fold_case, aedes_subscriptions = [], aedes_retained = [],
      aedes_outgoing = [], aedes_incoming = [], aedes_will = [], next_sub_id = 1,
      next_ret_id = 1, next_out_id = 1, next_inc_id = 1, next_will_id = 1, events = []\<rparr>"


subsection \<open>A provisioned component on an empty store\<close>

definition example_client :: client where
  "example_client = \<lparr>client_id = ''c1'', client_broker = None\<rparr>"

definition example_packet :: packet where
  "example_packet =
     \<lparr>messageId = Some 7, topic = ''sensors/room1/temp'', payload = ''21'', qos = 2,
      retain = False, dup = False\<rparr>"

definition example_brokers :: "(string \<times> unit) list" where
  "example_brokers = [(''broker1'', ()), (''broker2'', ())]"

definition example_subscription :: subscription where
  "example_subscription = \<lparr>s_clientId = ''c1'', s_topic = ''sensors/+/temp'', s_qos = 1\<rparr>"

definition example_packet2 :: packet where
  "example_packet2 =
     \<lparr>messageId = None, topic = ''sensors/room2/temp'', payload = ''19'', qos = 0,
      retain = False, dup = False\<rparr>"

definition example_ttl_state :: persistence where
  "example_ttl_state =
     run_setup (AedesPersistenceMySQL \<lparr>opt_ttl_subscriptions = Some 600\<rparr> empty_db)"

definition example_state :: persistence where
  "example_state = run_setup (AedesPersistenceMySQL \<lparr>opt_ttl_subscriptions = None\<rparr> empty_db)"

text \<open>
  A provisioned component on a store that holds subscriptions.  The rows are given as
  content of the store: no operation of the component writes a subscription.
\<close>

definition subscription_row :: "nat \<Rightarrow> string \<Rightarrow> string \<Rightarrow> nat \<Rightarrow> sub_row" where
  "subscription_row n c t q =
     \<lparr>sub_id = n, sub_client_id = c, sub_topic = t, sub_qos = q, sub_created_at = 0\<rparr>"

definition example_subscribed :: persistence where
  "example_subscribed =
     example_state\<lparr>store := (store example_state)
       \<lparr>aedes_subscriptions :=
          [subscription_row 1 ''c1'' ''a'' 0, subscription_row 2 ''c1'' ''a/b'' 1,
           subscription_row 3 ''c2'' ''A/B'' 1, subscription_row 4 ''c1'' ''a/b/c'' 1,
           subscription_row 5 ''c1'' ''a/b/x/c'' 2, subscription_row 6 ''c1'' ''axb'' 0],
        next_sub_id := 7\<rparr>\<rparr>"

text \<open>Components whose retained messages were stored through \<^verbatim>\<open>storeRetained\<close>.\<close>

definition retained_packet_at :: "string \<Rightarrow> packet" where
  "retained_packet_at t =
     \<lparr>messageId = None, topic = t, payload = ''on'', qos = 1, retain = True, dup = False\<rparr>"

definition example_retained :: persistence where
  "example_retained =
     snd (storeRetained (retained_packet_at ''axb'')
       (snd (storeRetained (retained_packet_at ''a/b/x/c'')
         (snd (storeRetained (retained_packet_at ''a/b/c'')
           (snd (storeRetained (retained_packet_at ''A/b'')
             (snd (storeRetained (retained_packet_at ''a'') example_state)))))))))"

definition example_odd :: persistence where
  "example_odd =
     snd (storeRetained (retained_packet_at ''$SYS/b1/load'')
            (snd (storeRetained (retained_packet_at ''/a//b/'') example_state)))"


section \<open>Properties of the store model\<close>

lemmas op_defs = then_catch_def pool_execute_def not_ready_def

subsection \<open>Insert or update on a unique key\<close>



lemma upsert_map_key:
  assumes "\<And>r. same r \<Longrightarrow> key (upd r) = key r"
  shows "map key (upsert same upd new rows) =
         (if list_ex same rows then map key rows else map key rows @ [key new])"
  using assms by (auto simp: upsert_def)

lemma upsert_distinct:
  assumes "distinct (map key rows)" and "\<And>r. same r \<longleftrightarrow> key r = key new"
    and "\<And>r. same r \<Longrightarrow> key (upd r) = key r"
  shows "distinct (map key (upsert same upd new rows))"
proof -
  have "\<not> list_ex same rows \<Longrightarrow> key new \<notin> set (map key rows)"
    using assms(2) by (auto simp: list_ex_iff)
  then show ?thesis using assms(1) by (simp add: upsert_map_key[of same key upd, OF assms(3)])
qed

lemma distinct_filter_key:
  assumes "distinct (map key rows)" and "r \<in> set rows"
  shows "filter (\<lambda>x. key x = key r) rows = [r]"
  using assms
proof (induction rows)
  case Nil then show ?case by simp
next
  case (Cons a rows)
  show ?case
  proof (cases "a = r")
    case True
    have "filter (\<lambda>x. key x = key r) rows = []"
      using Cons.prems(1) True by (auto simp: filter_empty_conv image_iff)
    then show ?thesis using True by simp
  next
    case False
    then have "r \<in> set rows" using Cons.prems by simp
    moreover have "key a \<noteq> key r" using Cons.prems \<open>r \<in> set rows\<close> by auto
    ultimately show ?thesis using Cons by simp
  qed
qed




subsection \<open>Letter case and printable text\<close>

lemma fold_case_slash [simp]: "fold_case c = CHR ''/'' \<longleftrightarrow> c = CHR ''/''"
  by (simp add: fold_case_def)

lemma fold_case_idem [simp]: "fold_case (fold_case c) = fold_case c"
  by (simp add: fold_case_def)

lemma fold_case_of_slash [simp]: "fold_case CHR ''/'' = CHR ''/''"
  by (simp add: fold_case_def)

lemma same_text_refl [simp]: "same_text a a"
  by (simp add: same_text_def)

lemma ignores_case_fold: "ignores_case (map fold_case)"
  by (simp add: ignores_case_def same_text_def)

subsection \<open>The example component\<close>

lemma example_state_eq:
  "example_state =
     \<lparr>ttl_subscriptions = None, pool = Some PoolOpen, ready = True, closed = False,
      awaiting = False, store = empty_db,
      io = [CreateTable ''aedes_subscriptions'', CreateTable ''aedes_retained'',
            CreateTable ''aedes_outgoing'', CreateTable ''aedes_incoming'',
            CreateTable ''aedes_will'']\<rparr>"
  by (simp add: example_state_def run_setup_def setup_resume_def setup_statements_def
      AedesPersistenceMySQL_def createTables_def seq_execute_def pool_execute_def
      sql_createTable_def Let_def)


section \<open>Incoming packets: one row per client and message id\<close>


text \<open>
  A packet without \<^verbatim>\<open>messageId\<close> never reaches the store: the driver refuses the
  parameter.
\<close>

lemma incoming_without_messageId:
  assumes "serving s" and "messageId pk = None"
  shows "incomingStorePacket cl pk s = (Inl (StoreError UndefinedParameter), s)"
    and "incomingGetPacket cl pk s = (Inl (StoreError UndefinedParameter), s)"
    and "incomingDelPacket cl pk s = (Inl (StoreError UndefinedParameter), s)"
  using assms
  by (simp_all add: incomingStorePacket_def incomingGetPacket_def incomingDelPacket_def
      pool_execute_with_def op_defs serving_def)



section \<open>Lookups that find no row\<close>



section \<open>Wills without a broker\<close>



section \<open>The readiness gate\<close>

lemmas gated_defs =
  storeRetained_def createRetainedStreamCombi_def createRetainedStream_def addSubscriptions_def
  removeSubscriptions_def subscriptionsByClient_def countOffline_def subscriptionsByTopic_def
  cleanSubscriptions_def getClientList_def outgoingEnqueueCombi_def outgoingEnqueue_def
  outgoingUpdate_def outgoingClearMessageId_def outgoingStream_def incomingStorePacket_def
  incomingGetPacket_def incomingDelPacket_def putWill_def getWill_def delWill_def streamWill_def

lemma gated_not_ready:
  assumes "\<not> ready s"
  shows "storeRetained pk s = (Inl not_ready, s)"
    and "createRetainedStreamCombi patterns s = (Inl not_ready, s)"
    and "createRetainedStream pattern s = (Inl not_ready, s)"
    and "addSubscriptions cl subs s = (Inl not_ready, s)"
    and "removeSubscriptions cl topics s = (Inl not_ready, s)"
    and "subscriptionsByClient cl s = (Inl not_ready, s)"
    and "countOffline s = (Inl not_ready, s)"
    and "subscriptionsByTopic pattern s = (Inl not_ready, s)"
    and "cleanSubscriptions cl s = (Inl not_ready, s)"
    and "getClientList t s = (Inl not_ready, s)"
    and "outgoingEnqueueCombi ss pk s = (Inl not_ready, s)"
    and "outgoingEnqueue sub pk s = (Inl not_ready, s)"
    and "outgoingUpdate cl pk s = (Inl not_ready, s)"
    and "outgoingClearMessageId cl pk s = (Inl not_ready, s)"
    and "outgoingStream cl s = (Inl not_ready, s)"
    and "incomingStorePacket cl pk s = (Inl not_ready, s)"
    and "incomingGetPacket cl pk s = (Inl not_ready, s)"
    and "incomingDelPacket cl pk s = (Inl not_ready, s)"
    and "putWill cl pk s = (Inl not_ready, s)"
    and "getWill cl s = (Inl not_ready, s)"
    and "delWill cl s = (Inl not_ready, s)"
    and "streamWill brokers s = (Inl not_ready, s)"
  using assms by (simp_all add: gated_defs)

lemma destroy_closes:
  assumes "lifecycle s"
  shows "closed (snd (destroy s))" and "lifecycle (snd (destroy s))"
    and "pool (snd (destroy s)) \<noteq> Some PoolOpen"
    and "awaiting (snd (destroy s)) = awaiting s"
    and "store (snd (destroy s)) = store s" and "io (snd (destroy s)) = io s"
    and "destroy (snd (destroy s)) = (Inr (), snd (destroy s))"
  using assms by (auto simp: destroy_def lifecycle_def Let_def split: option.splits)

lemma destroy_settled:
  assumes "settled s"
  shows "\<not> ready (snd (destroy s))" and "settled (snd (destroy s))"
  using assms by (auto simp: destroy_def settled_def Let_def split: option.splits)

lemma lifecycle_construct:
  "lifecycle (AedesPersistenceMySQL os d)" "settled (AedesPersistenceMySQL os d)"
  by (simp_all add: lifecycle_def settled_def AedesPersistenceMySQL_def)

lemma pool_execute_control:
  "pool (snd (pool_execute q run s)) = pool s"
  "ready (snd (pool_execute q run s)) = ready s"
  "closed (snd (pool_execute q run s)) = closed s"
  "awaiting (snd (pool_execute q run s)) = awaiting s"
  "ttl_subscriptions (snd (pool_execute q run s)) = ttl_subscriptions s"
  by (auto simp: pool_execute_def split: option.splits pool_state.splits prod.splits)

lemma seq_execute_control:
  "pool (snd (seq_execute r q run)) = pool (snd r)"
  "ready (snd (seq_execute r q run)) = ready (snd r)"
  "closed (snd (seq_execute r q run)) = closed (snd r)"
  "awaiting (snd (seq_execute r q run)) = awaiting (snd r)"
  by (auto simp: seq_execute_def pool_execute_control split: prod.splits sum.splits)

lemma seq_execute_failed: "fst r = Inl e \<Longrightarrow> fst (seq_execute r q run) = Inl e"
  by (auto simp: seq_execute_def split: prod.splits sum.splits)

lemma createTables_control:
  "pool (snd (createTables s)) = pool s"
  "ready (snd (createTables s)) = ready s"
  "closed (snd (createTables s)) = closed s"
  "awaiting (snd (createTables s)) = awaiting s"
  by (simp_all add: createTables_def Let_def seq_execute_control pool_execute_control split: option.splits)

lemma createTables_closed:
  assumes "pool s \<noteq> Some PoolOpen"
  shows "createTables s = (Inl PoolClosed, s)"
  using assms
  by (auto simp: createTables_def Let_def seq_execute_def pool_execute_def
      split: option.splits pool_state.splits)

lemma setup_statements_closed:
  assumes "pool s \<noteq> Some PoolOpen"
  shows "setup_statements s = s"
  by (simp add: setup_statements_def createTables_closed[OF assms])

lemma lifecycle_setup_statements: "lifecycle s \<Longrightarrow> lifecycle (setup_statements s)"
  using createTables_control[of s]
  by (auto simp: setup_statements_def lifecycle_def split: prod.splits sum.splits)

lemma lifecycle_setup_resume: "lifecycle s \<Longrightarrow> lifecycle (setup_resume s)"
  by (simp add: setup_resume_def lifecycle_def)

lemma lifecycle_run_setup: "lifecycle s \<Longrightarrow> lifecycle (run_setup s)"
  by (simp add: run_setup_def lifecycle_setup_statements lifecycle_setup_resume)

lemma settled_run_setup:
  assumes "lifecycle s" and "settled s"
  shows "settled (run_setup s)"
proof (cases "pool s = Some PoolOpen")
  case True
  then have "\<not> closed s" using assms(1) by (auto simp: lifecycle_def)
  then show ?thesis using createTables_control[of s]
    by (auto simp: run_setup_def setup_resume_def setup_statements_def settled_def
        split: prod.splits sum.splits)
next
  case False
  then show ?thesis using assms(2)
    by (simp add: run_setup_def setup_statements_closed setup_resume_def settled_def)
qed

lemma control_pool_execute: "control (snd (pool_execute q run s)) = control s"
  by (simp add: control_def pool_execute_control)

lemma control_pool_execute_with: "control (snd (pool_execute_with p q run s)) = control s"
  by (simp add: pool_execute_with_def control_pool_execute
      split: option.splits pool_state.splits)

lemma control_then_catch: "control (snd (then_catch r f)) = control (snd r)"
  by (auto simp: then_catch_def split: prod.splits sum.splits)

lemma operations_keep_control:
  shows "control (snd (storeRetained pk s)) = control s"
    and "control (snd (createRetainedStreamCombi patterns s)) = control s"
    and "control (snd (createRetainedStream pattern s)) = control s"
    and "control (snd (addSubscriptions cl subs s)) = control s"
    and "control (snd (removeSubscriptions cl topics s)) = control s"
    and "control (snd (subscriptionsByClient cl s)) = control s"
    and "control (snd (countOffline s)) = control s"
    and "control (snd (subscriptionsByTopic pattern s)) = control s"
    and "control (snd (cleanSubscriptions cl s)) = control s"
    and "control (snd (getClientList t s)) = control s"
    and "control (snd (outgoingEnqueueCombi ss pk s)) = control s"
    and "control (snd (outgoingEnqueue sub pk s)) = control s"
    and "control (snd (outgoingUpdate cl pk s)) = control s"
    and "control (snd (outgoingClearMessageId cl pk s)) = control s"
    and "control (snd (outgoingStream cl s)) = control s"
    and "control (snd (incomingStorePacket cl pk s)) = control s"
    and "control (snd (incomingGetPacket cl pk s)) = control s"
    and "control (snd (incomingDelPacket cl pk s)) = control s"
    and "control (snd (putWill cl pk s)) = control s"
    and "control (snd (getWill cl s)) = control s"
    and "control (snd (delWill cl s)) = control s"
    and "control (snd (streamWill brokers s)) = control s"
  by (simp_all add: gated_defs Let_def control_then_catch control_pool_execute
      control_pool_execute_with split: sum.splits)

lemma lifecycle_control:
  assumes "control s' = control s"
  shows "lifecycle s \<Longrightarrow> lifecycle s'" and "settled s \<Longrightarrow> settled s'"
  using assms by (simp_all add: control_def lifecycle_def settled_def)

subsection \<open>A component that has been closed\<close>

text \<open>
  Once the pool has been ended nothing reaches the store, whatever the flags are: an
  operation leaves the state as it is.
\<close>

lemma ended_pool_execute:
  assumes "pool s \<noteq> Some PoolOpen"
  shows "pool_execute q run s = (Inl PoolClosed, s)"
    and "pool_execute_with p q run' s = (Inl PoolClosed, s)"
  using assms
  by (auto simp: pool_execute_def pool_execute_with_def split: option.splits pool_state.splits)

lemma closed_sends_nothing:
  assumes "pool s \<noteq> Some PoolOpen"
  shows "snd (storeRetained pk s) = s"
    and "snd (createRetainedStreamCombi patterns s) = s"
    and "snd (createRetainedStream pattern s) = s"
    and "snd (addSubscriptions cl subs s) = s"
    and "snd (removeSubscriptions cl topics s) = s"
    and "snd (subscriptionsByClient cl s) = s"
    and "snd (countOffline s) = s"
    and "snd (subscriptionsByTopic pattern s) = s"
    and "snd (cleanSubscriptions cl s) = s"
    and "snd (getClientList t s) = s"
    and "snd (outgoingEnqueueCombi ss pk s) = s"
    and "snd (outgoingEnqueue sub pk s) = s"
    and "snd (outgoingUpdate cl pk s) = s"
    and "snd (outgoingClearMessageId cl pk s) = s"
    and "snd (outgoingStream cl s) = s"
    and "snd (incomingStorePacket cl pk s) = s"
    and "snd (incomingGetPacket cl pk s) = s"
    and "snd (incomingDelPacket cl pk s) = s"
    and "snd (putWill cl pk s) = s"
    and "snd (getWill cl s) = s"
    and "snd (delWill cl s) = s"
    and "snd (streamWill brokers s) = s"
  by (simp_all add: gated_defs Let_def then_catch_def ended_pool_execute[OF assms])

text \<open>
  \<^verbatim>\<open>destroy\<close> called while \<^verbatim>\<open>_setup\<close> waits for the answer to its last statement:
  when \<^verbatim>\<open>_setup\<close> resumes it sets \<^verbatim>\<open>_ready\<close> without a look at \<^verbatim>\<open>_closed\<close>.  The
  component is then closed and ready; a call passes the gate and fails at the pool,
  with the error of the pool and not with the not-ready error.
\<close>

lemma destroy_during_provisioning:
  "(let s0 = setup_statements (AedesPersistenceMySQL \<lparr>opt_ttl_subscriptions = None\<rparr> empty_db);
        s1 = snd (destroy s0);
        s2 = setup_resume s1
    in awaiting s0 \<and> \<not> ready s1 \<and> closed s2 \<and> ready s2 \<and>
       storeRetained example_packet s2 = (Inl (StoreError PoolClosed), s2))"
  by (simp add: setup_statements_def setup_resume_def AedesPersistenceMySQL_def createTables_def
      seq_execute_def pool_execute_def sql_createTable_def Let_def destroy_def storeRetained_def
      then_catch_def)

text \<open>
  Claim C3 asks for an error after \<^verbatim>\<open>destroy\<close> that differs from the error before
  provisioning.  The methods test \<^verbatim>\<open>_ready\<close> only, and \<^verbatim>\<open>destroy\<close> clears it: a call
  after \<^verbatim>\<open>destroy\<close> and a call before provisioning get the same error.
\<close>

theorem closed_error_counterexample:
  "fst (storeRetained example_packet (snd (destroy example_state))) =
     Inl (Error ''MySQL persistence not ready'') \<and>
   fst (storeRetained example_packet
          (AedesPersistenceMySQL \<lparr>opt_ttl_subscriptions = None\<rparr> empty_db)) =
     Inl (Error ''MySQL persistence not ready'')"
  by (simp add: storeRetained_def destroy_def example_state_eq AedesPersistenceMySQL_def not_ready_def)

text \<open>
  Claim C3, amended.  Let \<^verbatim>\<open>destroy\<close> be called in a state that the component can be
  in, at a moment when no provisioning is in flight (\<^verbatim>\<open>_setup\<close> is not suspended with
  its statements carried out, and has not resumed after an earlier \<^verbatim>\<open>destroy\<close>).  Then
  every method but \<^verbatim>\<open>destroy\<close> returns the error "MySQL persistence not ready" (the
  error of a component that is not yet provisioned) and leaves the whole state as it
  is: no statement is sent and the store is not touched.  \<^verbatim>\<open>destroy\<close> itself succeeds
  again without effect, and neither step of \<^verbatim>\<open>_setup\<close> changes the state, so this
  holds for every later call.
\<close>

theorem after_destroy_not_ready:
  assumes "lifecycle s" and "settled s" and "s' = snd (destroy s)"
  shows "closed s' \<and> store s' = store s \<and> io s' = io s \<and>
         storeRetained pk s' = (Inl not_ready, s') \<and>
         createRetainedStreamCombi patterns s' = (Inl not_ready, s') \<and>
         createRetainedStream pattern s' = (Inl not_ready, s') \<and>
         addSubscriptions cl subs s' = (Inl not_ready, s') \<and>
         removeSubscriptions cl topics s' = (Inl not_ready, s') \<and>
         subscriptionsByClient cl s' = (Inl not_ready, s') \<and>
         countOffline s' = (Inl not_ready, s') \<and>
         subscriptionsByTopic pattern s' = (Inl not_ready, s') \<and>
         cleanSubscriptions cl s' = (Inl not_ready, s') \<and>
         getClientList t s' = (Inl not_ready, s') \<and>
         outgoingEnqueueCombi ss pk s' = (Inl not_ready, s') \<and>
         outgoingEnqueue sub pk s' = (Inl not_ready, s') \<and>
         outgoingUpdate cl pk s' = (Inl not_ready, s') \<and>
         outgoingClearMessageId cl pk s' = (Inl not_ready, s') \<and>
         outgoingStream cl s' = (Inl not_ready, s') \<and>
         incomingStorePacket cl pk s' = (Inl not_ready, s') \<and>
         incomingGetPacket cl pk s' = (Inl not_ready, s') \<and>
         incomingDelPacket cl pk s' = (Inl not_ready, s') \<and>
         putWill cl pk s' = (Inl not_ready, s') \<and>
         getWill cl s' = (Inl not_ready, s') \<and>
         delWill cl s' = (Inl not_ready, s') \<and>
         streamWill brokers s' = (Inl not_ready, s') \<and>
         destroy s' = (Inr (), s') \<and>
         setup_statements s' = s' \<and> setup_resume s' = s' \<and> run_setup s' = s'"
proof -
  have cl: "closed s'" and po: "pool s' \<noteq> Some PoolOpen"
    using destroy_closes[OF assms(1)] assms(3) by simp_all
  have keep: "store s' = store s" "io s' = io s" "destroy s' = (Inr (), s')"
    using destroy_closes[OF assms(1)] assms(3) by simp_all
  have nr: "\<not> ready s'" and st: "settled s'"
    using destroy_settled[OF assms(2)] assms(3) by simp_all
  have a: "setup_statements s' = s'" by (rule setup_statements_closed[OF po])
  have b: "setup_resume s' = s'" using st by (simp add: setup_resume_def settled_def)
  have c: "run_setup s' = s'" by (simp add: run_setup_def a b)
  show ?thesis using gated_not_ready[OF nr] cl keep a b c by simp
qed

theorem after_destroy_not_ready_witness:
  "lifecycle example_state \<and> settled example_state \<and>
   storeRetained example_packet (snd (destroy example_state)) =
     (Inl (Error ''MySQL persistence not ready''), snd (destroy example_state)) \<and>
   destroy (snd (destroy example_state)) = (Inr (), snd (destroy example_state)) \<and>
   setup_resume (snd (destroy example_state)) = snd (destroy example_state)"
proof -
  have l: "lifecycle example_state" "settled example_state"
    by (simp_all add: lifecycle_def settled_def example_state_eq)
  note t = after_destroy_not_ready[OF l refl, where pk = example_packet and cl = example_client
      and patterns = "[]" and pattern = "[]" and subs = "[]" and topics = "[]" and t = "[]"
      and ss = "[]" and sub = "\<lparr>s_clientId = [], s_topic = [], s_qos = 0\<rparr>"
      and brokers = example_brokers]
  show ?thesis using l t by (simp add: not_ready_def)
qed


section \<open>Outgoing packets and subscriptions: the inserts with a list of rows\<close>

text \<open>
  \<^verbatim>\<open>outgoingEnqueueCombi\<close> and \<^verbatim>\<open>addSubscriptions\<close> send \<^verbatim>\<open>VALUES ?\<close> through
  \<^verbatim>\<open>execute\<close>.  Whatever the state and the arguments are, they leave the store as it
  is; on a serving component they call back with the error of the store.
\<close>

lemma outgoingEnqueueCombi_store: "store (snd (outgoingEnqueueCombi subs pk s)) = store s"
  by (simp add: outgoingEnqueueCombi_def op_defs sql_outgoingEnqueue_def Let_def
      split: option.splits pool_state.splits)

lemma addSubscriptions_store: "store (snd (addSubscriptions cl subs s)) = store s"
  by (simp add: addSubscriptions_def op_defs sql_addSubscriptions_def Let_def
      split: option.splits pool_state.splits)

lemma outgoingEnqueueCombi_refused:
  assumes "serving s" and "subs \<noteq> []"
  shows "fst (outgoingEnqueueCombi subs pk s) = Inl (StoreError BadStatement)"
  using assms
  by (simp add: outgoingEnqueueCombi_def op_defs sql_outgoingEnqueue_def Let_def serving_def)

lemma addSubscriptions_refused:
  assumes "serving s"
  shows "fst (addSubscriptions cl subs s) = Inl (StoreError BadStatement)"
  using assms
  by (simp add: addSubscriptions_def op_defs sql_addSubscriptions_def Let_def serving_def)

text \<open>The stream of a client: its rows of \<^verbatim>\<open>aedes_outgoing\<close> in the order of their ids.\<close>

lemma outgoingStream_rows:
  assumes "serving s"
  shows "fst (outgoingStream cl s) =
           Inr (map outgoing_object
                  (sort_key out_id (filter (\<lambda>r. out_client_id r = client_id cl)
                                           (aedes_outgoing (store s)))))"
  using assms by (simp add: outgoingStream_def op_defs sql_outgoingStream_def serving_def)

text \<open>
  Claim C5.  The claim has the packets of a client streamed in the order in which they
  were enqueued.  On a provisioned component with an empty store the packet
  \<open>example_packet\<close> and then the packet \<open>example_packet2\<close> are enqueued for the
  subscription of client \<^verbatim>\<open>c1\<close>.  Both calls call back with the error of the store,
  \<^verbatim>\<open>aedes_outgoing\<close> stays empty, and the stream of \<^verbatim>\<open>c1\<close> ends without a packet.
\<close>

theorem outgoing_enqueue_stores_nothing:
  "(let r1 = outgoingEnqueue example_subscription example_packet example_state;
        r2 = outgoingEnqueue example_subscription example_packet2 (snd r1)
    in s_clientId example_subscription = client_id example_client \<and>
       fst r1 = Inl (StoreError BadStatement) \<and>
       fst r2 = Inl (StoreError BadStatement) \<and>
       aedes_outgoing (store (snd r2)) = [] \<and>
       fst (outgoingStream example_client (snd r2)) = Inr [])"
  by (simp add: Let_def outgoingEnqueue_def outgoingEnqueueCombi_def outgoingStream_def op_defs
      sql_outgoingEnqueue_def sql_outgoingStream_def example_state_eq example_subscription_def
      example_client_def empty_db_def)


section \<open>The expiry event\<close>

lemma fire_cleanup_event: "fire_event (cleanup_event n) d = (Inl (NoSuchTable ''subscriptions''), d)"
  by (simp add: fire_event_def cleanup_event_def)

lemma example_ttl_state_eq:
  "example_ttl_state =
     \<lparr>ttl_subscriptions = Some 600, pool = Some PoolOpen, ready = True, closed = False,
      awaiting = False, store = empty_db\<lparr>events := [cleanup_event 600]\<rparr>,
      io = [CreateTable ''aedes_subscriptions'', CreateTable ''aedes_retained'',
            CreateTable ''aedes_outgoing'', CreateTable ''aedes_incoming'',
            CreateTable ''aedes_will'', CreateEvent]\<rparr>"
  by (simp add: example_ttl_state_def run_setup_def setup_resume_def setup_statements_def
      AedesPersistenceMySQL_def createTables_def seq_execute_def pool_execute_def
      sql_createTable_def sql_createEvent_def Let_def empty_db_def)

text \<open>
  Claim C7.  With \<^verbatim>\<open>ttl.subscriptions = 600\<close> provisioning installs the event
  \<^verbatim>\<open>aedes_cleanup_subscriptions\<close>.  Its \<^verbatim>\<open>DELETE\<close> names the relation
  \<^verbatim>\<open>subscriptions\<close>, while the subscriptions are stored in \<^verbatim>\<open>aedes_subscriptions\<close>:
  on the provisioned store with a subscription 10000 seconds old the event fails on
  the missing relation and the row stays.  The same event on \<^verbatim>\<open>aedes_subscriptions\<close>
  would delete it.  On every store and for every time to live the event fails in this
  way and changes nothing.
\<close>

theorem ttl_event_misses_subscriptions:
  "(let d = (store example_ttl_state)
              \<lparr>aedes_subscriptions := [subscription_row 1 ''c1'' ''a/b'' 1], next_sub_id := 2,
               now := 10000\<rparr>
    in events d = [cleanup_event 600] \<and>
       map sub_topic (aedes_subscriptions d) = [''a/b''] \<and>
       list_all (\<lambda>r. expired d 600 (sub_created_at r)) (aedes_subscriptions d) \<and>
       fire_event (cleanup_event 600) d = (Inl (NoSuchTable ''subscriptions''), d) \<and>
       aedes_subscriptions
         (snd (fire_event ((cleanup_event 600)\<lparr>ev_table := ''aedes_subscriptions''\<rparr>) d)) = []) \<and>
   (\<forall>d n. fire_event (cleanup_event n) d = (Inl (NoSuchTable ''subscriptions''), d))"
  by (simp add: Let_def fire_cleanup_event example_ttl_state_eq subscription_row_def empty_db_def
      expired_def fire_event_def cleanup_event_def)


section \<open>The topic matcher\<close>

subsection \<open>Reading the pattern of a filter\<close>

lemma sqlPattern_tokens: "sqlPattern f = ''^'' @ concat (map token f) @ ''$''"
proof -
  have "replace_all (CHR ''#'') ''.*'' (replace_all (CHR ''+'') ''[^/]+'' f) = concat (map token f)"
    by (induction f) (simp_all add: replace_all_def token_def)
  then show ?thesis by (simp add: sqlPattern_def)
qed


lemma parse_plus: "rx_parse Normal ((alts, cur, rep) # up) (''[^/]+'' @ rest) =
   rx_parse Normal ((alts, Cat (Bracket True ''/'') (Star (Bracket True ''/'')) # cur, False) # up) rest"
  by (simp add: bracket_plain_def repeat_def)

lemma parse_hash: "rx_parse Normal ((alts, cur, rep) # up) (''.*'' @ rest) =
   rx_parse Normal ((alts, Star AnyChar # cur, False) # up) rest"
  by (simp add: repeat_def)


lemma parse_lit:
  assumes "\<not> special c" "\<not> wildcard c"
  shows "rx_parse Normal ((alts, cur, rep) # up) (c # rest) =
         rx_parse Normal ((alts, Lit c # cur, True) # up) rest"
proof -
  have "c \<noteq> CHR ''(''" "c \<noteq> CHR '')''" "c \<noteq> CHR ''|''" "c \<noteq> CHR ''*''" "c \<noteq> CHR ''+''"
    "c \<noteq> CHR ''?''" "c \<noteq> CHR ''[''" "c \<noteq> CHR ''.''" "c \<noteq> CHR ''^''" "c \<noteq> CHR ''$''"
    "c \<noteq> CHR 0x5C" "c \<noteq> CHR ''{''" "c \<noteq> CHR ''}''" "c \<noteq> CHR '']''"
    using assms by (auto simp: special_def wildcard_def)
  then show ?thesis by simp
qed

lemma parse_token:
  assumes "\<not> special c"
  shows "rx_parse Normal ((alts, cur, rep) # up) (token c @ rest) =
         rx_parse Normal ((alts, token_rx c # cur, \<not> wildcard c) # up) rest"
proof (cases "c = CHR ''+''")
  case True
  then have "token c = ''[^/]+''" "token_rx c = Cat (Bracket True ''/'') (Star (Bracket True ''/''))"
    "wildcard c" by (simp_all add: token_def token_rx_def wildcard_def)
  then show ?thesis using parse_plus[of alts cur rep up rest] by presburger
next
  case False
  note np = this
  show ?thesis
  proof (cases "c = CHR ''#''")
    case True
    then have "token c = ''.*''" "token_rx c = Star AnyChar" "wildcard c"
      by (simp_all add: token_def token_rx_def wildcard_def)
    then show ?thesis using parse_hash[of alts cur rep up rest] by presburger
  next
    case False
    then have w: "\<not> wildcard c" using np by (simp add: wildcard_def)
    have "token c = [c]" "token_rx c = Lit c" using np False by (simp_all add: token_def token_rx_def)
    then show ?thesis using parse_lit[OF assms w, of alts cur rep up rest] w by simp
  qed
qed

lemma parse_tokens:
  assumes "regexp_free f"
  shows "\<exists>rep'. rx_parse Normal ((alts, cur, rep) # up) (concat (map token f) @ rest) =
                 rx_parse Normal ((alts, rev (map token_rx f) @ cur, rep') # up) rest"
  using assms
proof (induction f arbitrary: cur rep)
  case Nil
  show ?case by (rule exI[of _ rep]) simp
next
  case (Cons c f)
  then have c: "\<not> special c" and f: "regexp_free f" by (simp_all add: regexp_free_def)
  note 1 = parse_token[OF c, of alts cur rep up "concat (map token f) @ rest"]
  from Cons.IH[OF f, of "token_rx c # cur" "\<not> wildcard c"]
  obtain r2 where 2: "rx_parse Normal ((alts, token_rx c # cur, \<not> wildcard c) # up) (concat (map token f) @ rest) =
                 rx_parse Normal ((alts, rev (map token_rx f) @ token_rx c # cur, r2) # up) rest" by blast
  have "rx_parse Normal ((alts, cur, rep) # up) (concat (map token (c # f)) @ rest) =
        rx_parse Normal ((alts, rev (map token_rx (c # f)) @ cur, r2) # up) rest"
    using 1 2 by simp
  then show ?case by (rule exI[of _ r2])
qed

lemma compile_sqlPattern:
  assumes "regexp_free f"
  shows "regexp_compile (sqlPattern f) = Parsed (Cat Bol (mk_cat (map token_rx f @ [Eol])))"
proof -
  from parse_tokens[OF assms, of "[]" "[Bol]" False "[]" "''$''"]
  obtain r where "rx_parse Normal [([], [Bol], False)] (concat (map token f) @ ''$'') =
                 rx_parse Normal [([], rev (map token_rx f) @ [Bol], r)] ''$''" by blast
  then show ?thesis
    by (simp add: regexp_compile_def sqlPattern_tokens close_frame_def mk_cat_def)
qed


subsection \<open>Running the pattern of a filter\<close>

text \<open>
  The equation of \<open>rx_run\<close> for a repetition mentions the repetition again; it is
  applied by hand.
\<close>

declare rx_run.simps(9) [simp del]

lemma run_star_bracket_Nil: "rx_run n (Star (Bracket neg cs)) [] = [[]]"
  by (subst rx_run.simps(9)) simp

lemma run_star_bracket_Cons:
  "rx_run n (Star (Bracket True ''/'')) (d # s) =
     (d # s) # (if d \<noteq> CHR ''/'' then rx_run n (Star (Bracket True ''/'')) s else [])"
  by (subst rx_run.simps(9)) simp

lemma run_star_any_Nil: "rx_run n (Star AnyChar) [] = [[]]"
  by (subst rx_run.simps(9)) simp

lemma run_star_any_Cons: "rx_run n (Star AnyChar) (d # s) = (d # s) # rx_run n (Star AnyChar) s"
  by (subst rx_run.simps(9)) simp

lemma run_star_bracket:
  "set (rx_run n (Star (Bracket True ''/'')) s) =
     {drop k s | k. k \<le> length s \<and> CHR ''/'' \<notin> set (take k s)}"
proof (induction s)
  case Nil
  show ?case by (auto simp: run_star_bracket_Nil)
next
  case (Cons d s)
  note step = run_star_bracket_Cons[of n d s]
  show ?case (is "?L = ?R")
  proof (intro set_eqI iffI)
    fix x assume "x \<in> ?L"
    then consider "x = d # s" | "d \<noteq> CHR ''/''" "x \<in> set (rx_run n (Star (Bracket True ''/'')) s)"
      unfolding step by (auto split: if_splits)
    then show "x \<in> ?R"
    proof cases
      case 1
      then have "x = drop 0 (d # s) \<and> 0 \<le> length (d # s) \<and> CHR ''/'' \<notin> set (take 0 (d # s))"
        by simp
      then show ?thesis by blast
    next
      case 2
      then obtain k where k: "x = drop k s" "k \<le> length s" "CHR ''/'' \<notin> set (take k s)"
        unfolding Cons.IH by blast
      then have "x = drop (Suc k) (d # s) \<and> Suc k \<le> length (d # s) \<and>
                 CHR ''/'' \<notin> set (take (Suc k) (d # s))"
        using 2(1) by auto
      then show ?thesis by blast
    qed
  next
    fix x assume "x \<in> ?R"
    then obtain k where k: "x = drop k (d # s)" "k \<le> length (d # s)"
      "CHR ''/'' \<notin> set (take k (d # s))" by blast
    show "x \<in> ?L"
    proof (cases k)
      case 0
      then show ?thesis using k unfolding step by simp
    next
      case (Suc j)
      then have "d \<noteq> CHR ''/''" "x = drop j s" "j \<le> length s" "CHR ''/'' \<notin> set (take j s)"
        using k by auto
      then have "x \<in> set (rx_run n (Star (Bracket True ''/'')) s)" unfolding Cons.IH by blast
      then show ?thesis unfolding step using \<open>d \<noteq> CHR ''/''\<close> by simp
    qed
  qed
qed

lemma run_star_any: "set (rx_run n (Star AnyChar) s) = {drop k s | k. k \<le> length s}"
proof (induction s)
  case Nil
  show ?case by (auto simp: run_star_any_Nil)
next
  case (Cons d s)
  note step = run_star_any_Cons[of n d s]
  show ?case (is "?L = ?R")
  proof (intro set_eqI iffI)
    fix x assume "x \<in> ?L"
    then consider "x = d # s" | "x \<in> set (rx_run n (Star AnyChar) s)"
      unfolding step by auto
    then show "x \<in> ?R"
    proof cases
      case 1
      then have "x = drop 0 (d # s) \<and> 0 \<le> length (d # s)" by simp
      then show ?thesis by blast
    next
      case 2
      then obtain k where k: "x = drop k s" "k \<le> length s" unfolding Cons.IH by blast
      then have "x = drop (Suc k) (d # s) \<and> Suc k \<le> length (d # s)" by simp
      then show ?thesis by blast
    qed
  next
    fix x assume "x \<in> ?R"
    then obtain k where k: "x = drop k (d # s)" "k \<le> length (d # s)" by blast
    show "x \<in> ?L"
    proof (cases k)
      case 0
      then show ?thesis using k unfolding step by simp
    next
      case (Suc j)
      then have "x = drop j s" "j \<le> length s" using k by auto
      then have "x \<in> set (rx_run n (Star AnyChar) s)" unfolding Cons.IH by blast
      then show ?thesis unfolding step by simp
    qed
  qed
qed

lemma run_cat: "rx_run n (Cat r1 r2) s \<noteq> [] \<longleftrightarrow> (\<exists>s' \<in> set (rx_run n r1 s). rx_run n r2 s' \<noteq> [])"
  by auto

lemma run_plus_bracket:
  "set (rx_run n (Cat (Bracket True ''/'') (Star (Bracket True ''/''))) s) =
     {drop k s | k. 1 \<le> k \<and> k \<le> length s \<and> CHR ''/'' \<notin> set (take k s)}"
proof (cases s)
  case Nil
  then show ?thesis by auto
next
  case (Cons d t)
  show ?thesis (is "?L = ?R")
  proof (intro set_eqI iffI)
    fix x assume "x \<in> ?L"
    then have d: "d \<noteq> CHR ''/''" and "x \<in> set (rx_run n (Star (Bracket True ''/'')) t)"
      unfolding Cons by (auto split: if_splits)
    then obtain k where k: "x = drop k t" "k \<le> length t" "CHR ''/'' \<notin> set (take k t)"
      unfolding run_star_bracket by blast
    then have "x = drop (Suc k) s \<and> 1 \<le> Suc k \<and> Suc k \<le> length s \<and>
               CHR ''/'' \<notin> set (take (Suc k) s)"
      using d by (auto simp: Cons)
    then show "x \<in> ?R" by blast
  next
    fix x assume "x \<in> ?R"
    then obtain k where k: "x = drop k s" "1 \<le> k" "k \<le> length s" "CHR ''/'' \<notin> set (take k s)"
      by blast
    then obtain j where j: "k = Suc j" by (cases k) auto
    then have "d \<noteq> CHR ''/''" "x = drop j t" "j \<le> length t" "CHR ''/'' \<notin> set (take j t)"
      using k by (auto simp: Cons)
    then have "x \<in> set (rx_run n (Star (Bracket True ''/'')) t)" unfolding run_star_bracket by blast
    then show "x \<in> ?L" unfolding Cons using \<open>d \<noteq> CHR ''/''\<close> by simp
  qed
qed

lemma list_ex_upt: "list_ex P [a..<Suc b] \<longleftrightarrow> (\<exists>k. a \<le> k \<and> k \<le> b \<and> P k)"
  by (auto simp: list_ex_iff less_Suc_eq_le simp del: upt_Suc)

lemma mk_cat_Cons: "mk_cat (a # atoms) = Cat a (mk_cat atoms)"
  by (simp add: mk_cat_def)

lemma run_tokens:
  "rx_run n (mk_cat (map token_rx f @ [Eol])) s \<noteq> [] \<longleftrightarrow> filter_matches f s"
proof (induction f arbitrary: s)
  case Nil
  show ?case by (simp add: mk_cat_def)
next
  case (Cons c f)
  let ?R = "mk_cat (map token_rx f @ [Eol])"
  have cat: "rx_run n (mk_cat (map token_rx (c # f) @ [Eol])) s \<noteq> [] \<longleftrightarrow>
             (\<exists>s' \<in> set (rx_run n (token_rx c) s). filter_matches f s')"
    using Cons.IH by (simp add: mk_cat_Cons del: rx_run.simps filter_matches.simps) (auto simp: Cons.IH)
  show ?case
  proof (cases "c = CHR ''+''")
    case True
    have "(\<exists>s' \<in> set (rx_run n (token_rx c) s). filter_matches f s') \<longleftrightarrow>
          (\<exists>k. 1 \<le> k \<and> k \<le> length s \<and> CHR ''/'' \<notin> set (take k s) \<and> filter_matches f (drop k s))"
      unfolding token_rx_def using True by (auto simp: run_plus_bracket simp del: rx_run.simps)
    also have "\<dots> \<longleftrightarrow> filter_matches (c # f) s"
      using True by (simp add: list_ex_upt del: upt_Suc)
    finally show ?thesis using cat by simp
  next
    case False
    note np = this
    show ?thesis
    proof (cases "c = CHR ''#''")
      case True
      have "(\<exists>s' \<in> set (rx_run n (token_rx c) s). filter_matches f s') \<longleftrightarrow>
            (\<exists>k. k \<le> length s \<and> filter_matches f (drop k s))"
        unfolding token_rx_def using True by (auto simp: run_star_any simp del: rx_run.simps)
      also have "\<dots> \<longleftrightarrow> filter_matches (c # f) s"
        using True by (simp add: list_ex_upt del: upt_Suc)
      finally show ?thesis using cat by simp
    next
      case False
      have "(\<exists>s' \<in> set (rx_run n (token_rx c) s). filter_matches f s') \<longleftrightarrow> filter_matches (c # f) s"
        using np False by (auto simp: token_rx_def split: list.splits if_splits)
      then show ?thesis using cat by simp
    qed
  qed
qed

lemma tails_length: "x \<in> set (tails t) \<Longrightarrow> x = t \<or> length x < length t"
  by (induction t) auto

lemma tails_same_length: "x \<in> set (tails t) \<Longrightarrow> length x = length t \<Longrightarrow> x = t"
  using tails_length by fastforce

lemma tails_self: "t \<in> set (tails t)"
  by (cases t) auto

lemma search_anchored: "regexp_search (Cat Bol r) t \<longleftrightarrow> rx_run (length t) r t \<noteq> []"
proof -
  have "(\<exists>x \<in> set (tails t). rx_run (length t) (Cat Bol r) x \<noteq> []) \<longleftrightarrow> rx_run (length t) r t \<noteq> []"
    using tails_self[of t] by (auto split: if_splits dest: tails_same_length)
  then show ?thesis by (simp add: regexp_search_def list_ex_iff del: rx_run.simps)
qed

lemma topic_filter_meaning:
  assumes "regexp_free f"
  shows "\<exists>r. regexp_compile (sqlPattern f) = Parsed r \<and> (\<forall>t. regexp_search r t = filter_matches f t)"
  using compile_sqlPattern[OF assms] search_anchored run_tokens by simp


subsection \<open>The statements with \<^verbatim>\<open>REGEXP\<close>\<close>

lemma literal_regexp_free: "literal f \<Longrightarrow> regexp_free f"
  by (simp add: literal_def regexp_free_def list_all_iff)

lemma plain_token: "printable c \<Longrightarrow> plain (token c)"
  by (simp add: token_def plain_def printable_def)

lemma plain_sqlPattern: "plain f \<Longrightarrow> plain (sqlPattern f)"
proof -
  assume "plain f"
  then have "plain (concat (map token f))"
    using plain_token by (induction f) (auto simp: plain_def)
  then show ?thesis by (simp add: sqlPattern_tokens plain_def printable_def)
qed

lemma compile_all_filters:
  assumes "list_all regexp_free fs"
  shows "\<exists>rs. compile_all (map sqlPattern fs) = Parsed rs \<and>
              (\<forall>t. list_ex (\<lambda>r. regexp_search r t) rs = list_ex (\<lambda>f. filter_matches f t) fs)"
  using assms
proof (induction fs)
  case Nil
  show ?case by simp
next
  case (Cons f fs)
  then have "regexp_free f" and "list_all regexp_free fs" by simp_all
  from topic_filter_meaning[OF this(1)] obtain r where
    r: "regexp_compile (sqlPattern f) = Parsed r" "\<And>t. regexp_search r t = filter_matches f t" by blast
  from Cons.IH[OF \<open>list_all regexp_free fs\<close>] obtain rs where
    rs: "compile_all (map sqlPattern fs) = Parsed rs"
        "\<And>t. list_ex (\<lambda>r. regexp_search r t) rs = list_ex (\<lambda>f. filter_matches f t) fs" by blast
  have "compile_all (map sqlPattern (f # fs)) = Parsed (r # rs)" using r(1) rs(1) by simp
  moreover have "\<forall>t. list_ex (\<lambda>r. regexp_search r t) (r # rs) = list_ex (\<lambda>f. filter_matches f t) (f # fs)"
    using r(2) rs(2) by simp
  ultimately show ?case by blast
qed

lemma where_regexp_filters:
  assumes "list_all regexp_free fs" and "fs \<noteq> []"
    and "list_all plain fs" and "list_all (\<lambda>row. plain (col row)) rows"
  shows "where_regexp (map sqlPattern fs) col rows =
           Inr (filter (\<lambda>row. list_ex (\<lambda>f. filter_matches f (col row)) fs) rows)"
proof -
  from compile_all_filters[OF assms(1)] obtain rs where
    rs: "compile_all (map sqlPattern fs) = Parsed rs"
        "\<And>t. list_ex (\<lambda>r. regexp_search r t) rs = list_ex (\<lambda>f. filter_matches f t) fs" by blast
  have "list_all plain (map sqlPattern fs)"
    using assms(3) plain_sqlPattern by (simp add: list_all_iff)
  then show ?thesis using assms(2,4) rs by (simp add: where_regexp_def)
qed

lemma subscriptionsByTopic_rows:
  assumes "serving s" and "regexp_free f" and "plain f"
    and "list_all (\<lambda>row. plain (sub_topic row)) (aedes_subscriptions (store s))"
  shows "fst (subscriptionsByTopic f s) =
           Inr (map (\<lambda>row. \<lparr>s_clientId = sub_client_id row, s_topic = sub_topic row, s_qos = sub_qos row\<rparr>)
                  (filter (\<lambda>row. filter_matches f (sub_topic row)) (aedes_subscriptions (store s))))"
  using assms(1) where_regexp_filters[of "[f]" sub_topic "aedes_subscriptions (store s)"] assms(2,3,4)
  by (simp add: subscriptionsByTopic_def op_defs serving_def sql_subscriptionsByTopic_def)

lemma createRetainedStreamCombi_rows:
  assumes "serving s" and "list_all regexp_free fs" and "fs \<noteq> []"
    and "list_all plain fs"
    and "list_all (\<lambda>row. plain (ret_topic row)) (aedes_retained (store s))"
  shows "fst (createRetainedStreamCombi fs s) =
           Inr (map (\<lambda>row. \<lparr>rp_topic = ret_topic row, rp_payload = ret_payload row, rp_qos = ret_qos row\<rparr>)
                  (filter (\<lambda>row. list_ex (\<lambda>f. filter_matches f (ret_topic row)) fs) (aedes_retained (store s))))"
  using assms(1) where_regexp_filters[OF assms(2,3,4,5)]
  by (simp add: createRetainedStreamCombi_def op_defs serving_def sql_retainedMatching_def Let_def)

lemma same_text_length: "same_text a b \<Longrightarrow> length a = length b"
  unfolding same_text_def by (rule map_eq_imp_length_eq)

lemma filter_matches_literal:
  assumes "literal p"
  shows "filter_matches (p @ g) t \<longleftrightarrow>
           same_text (take (length p) t) p \<and> filter_matches g (drop (length p) t)"
  using assms
proof (induction p arbitrary: t)
  case Nil
  show ?case by (simp add: same_text_def)
next
  case (Cons c p)
  then have c: "c \<noteq> CHR ''+''" "c \<noteq> CHR ''#''" and p: "literal p"
    by (auto simp: literal_def wildcard_def)
  show ?case using c Cons.IH[OF p] by (cases t) (auto simp: same_text_def)
qed

lemma filter_matches_exact: "literal p \<Longrightarrow> filter_matches p t \<longleftrightarrow> same_text t p"
proof -
  assume l: "literal p"
  have "filter_matches p t \<longleftrightarrow> same_text (take (length p) t) p \<and> drop (length p) t = []"
    using filter_matches_literal[OF l, of "[]" t] by simp
  also have "\<dots> \<longleftrightarrow> same_text t p"
    using same_text_length[of t p] by auto
  finally show ?thesis .
qed

lemma filter_matches_hash: "filter_matches ''#'' t"
proof -
  have "length t \<le> length t \<and> filter_matches [] (drop (length t) t)" by simp
  then show ?thesis by (simp add: list_ex_upt del: upt_Suc) blast
qed

lemma filter_matches_prefix:
  "literal p \<Longrightarrow> filter_matches (p @ ''#'') t \<longleftrightarrow> same_text (take (length p) t) p"
  using filter_matches_literal[of p "''#''" t] filter_matches_hash[of "drop (length p) t"]
  by (simp del: filter_matches.simps)

lemma filter_matches_plus:
  "filter_matches (CHR ''+'' # f) t \<longleftrightarrow>
     (\<exists>j. 1 \<le> j \<and> j \<le> length t \<and> CHR ''/'' \<notin> set (take j t) \<and> filter_matches f (drop j t))"
  by (simp add: list_ex_upt del: upt_Suc)

lemma filter_matches_hash_Cons:
  "filter_matches (CHR ''#'' # f) t \<longleftrightarrow> (\<exists>j. j \<le> length t \<and> filter_matches f (drop j t))"
  by (simp add: list_ex_upt del: upt_Suc)

lemma filter_matches_append:
  "filter_matches (f @ g) t \<longleftrightarrow>
     (\<exists>k. k \<le> length t \<and> filter_matches f (take k t) \<and> filter_matches g (drop k t))"
proof (induction f arbitrary: t)
  case Nil
  show ?case
  proof
    assume "filter_matches ([] @ g) t"
    then have "0 \<le> length t \<and> filter_matches [] (take 0 t) \<and> filter_matches g (drop 0 t)" by simp
    then show "\<exists>k. k \<le> length t \<and> filter_matches [] (take k t) \<and> filter_matches g (drop k t)" by blast
  next
    assume "\<exists>k. k \<le> length t \<and> filter_matches [] (take k t) \<and> filter_matches g (drop k t)"
    then obtain k where k: "take k t = []" "filter_matches g (drop k t)" by auto
    then have "drop k t = t" by (metis append_take_drop_id append_Nil)
    then show "filter_matches ([] @ g) t" using k(2) by simp
  qed
next
  case (Cons c f)
  show ?case
  proof (cases "c = CHR ''+''")
    case True
    show ?thesis
    proof
      assume "filter_matches ((c # f) @ g) t"
      then obtain j where j: "1 \<le> j" "j \<le> length t" "CHR ''/'' \<notin> set (take j t)"
        "filter_matches (f @ g) (drop j t)"
        using True filter_matches_plus[of "f @ g" t] by auto
      then obtain k where k: "k \<le> length (drop j t)" "filter_matches f (take k (drop j t))"
        "filter_matches g (drop k (drop j t))" using Cons.IH by blast
      have a: "j + k \<le> length t" using k(1) j(2) by simp
      have b: "take j (take (j + k) t) = take j t" by (simp add: min_def)
      have c: "drop j (take (j + k) t) = take k (drop j t)" by (simp add: drop_take)
      have d: "drop (j + k) t = drop k (drop j t)" by (simp add: add.commute)
      have "filter_matches (c # f) (take (j + k) t)"
        unfolding True filter_matches_plus using j a k(2) b c
        by (intro exI[of _ j]) (simp add: min_def)
      then show "\<exists>k. k \<le> length t \<and> filter_matches (c # f) (take k t) \<and> filter_matches g (drop k t)"
        using a d k(3) by (intro exI[of _ "j + k"]) simp
    next
      assume "\<exists>k. k \<le> length t \<and> filter_matches (c # f) (take k t) \<and> filter_matches g (drop k t)"
      then obtain k where k: "k \<le> length t" "filter_matches (c # f) (take k t)"
        "filter_matches g (drop k t)" by blast
      then obtain j where j: "1 \<le> j" "j \<le> length (take k t)" "CHR ''/'' \<notin> set (take j (take k t))"
        "filter_matches f (drop j (take k t))"
        using True filter_matches_plus[of f "take k t"] by auto
      have jk: "j \<le> k" "j \<le> length t" using j(2) k(1) by simp_all
      have b: "take j (take k t) = take j t" using jk by (simp add: min_def)
      have c: "drop j (take k t) = take (k - j) (drop j t)" by (simp add: drop_take)
      have d: "drop (k - j) (drop j t) = drop k t" using jk by simp
      have "k - j \<le> length (drop j t) \<and> filter_matches f (take (k - j) (drop j t)) \<and>
            filter_matches g (drop (k - j) (drop j t))"
        using j(4) k(1,3) c d by simp
      then have "filter_matches (f @ g) (drop j t)" using Cons.IH by blast
      then show "filter_matches ((c # f) @ g) t"
        using True j(1,3) jk(2) b filter_matches_plus[of "f @ g" t] by auto
    qed
  next
    case False
    note np = this
    show ?thesis
    proof (cases "c = CHR ''#''")
      case True
      show ?thesis
      proof
        assume "filter_matches ((c # f) @ g) t"
        then obtain j where j: "j \<le> length t" "filter_matches (f @ g) (drop j t)"
          using True filter_matches_hash_Cons[of "f @ g" t] by auto
        then obtain k where k: "k \<le> length (drop j t)" "filter_matches f (take k (drop j t))"
          "filter_matches g (drop k (drop j t))" using Cons.IH by blast
        have a: "j + k \<le> length t" using k(1) j(1) by simp
        have c: "drop j (take (j + k) t) = take k (drop j t)" by (simp add: drop_take)
        have d: "drop (j + k) t = drop k (drop j t)" by (simp add: add.commute)
        have "filter_matches (c # f) (take (j + k) t)"
          unfolding True filter_matches_hash_Cons using j a k(2) c
          by (intro exI[of _ j]) (simp add: min_def)
        then show "\<exists>k. k \<le> length t \<and> filter_matches (c # f) (take k t) \<and> filter_matches g (drop k t)"
          using a d k(3) by (intro exI[of _ "j + k"]) simp
      next
        assume "\<exists>k. k \<le> length t \<and> filter_matches (c # f) (take k t) \<and> filter_matches g (drop k t)"
        then obtain k where k: "k \<le> length t" "filter_matches (c # f) (take k t)"
          "filter_matches g (drop k t)" by blast
        then obtain j where j: "j \<le> length (take k t)" "filter_matches f (drop j (take k t))"
          using True filter_matches_hash_Cons[of f "take k t"] by auto
        have jk: "j \<le> k" "j \<le> length t" using j(1) k(1) by simp_all
        have c: "drop j (take k t) = take (k - j) (drop j t)" by (simp add: drop_take)
        have d: "drop (k - j) (drop j t) = drop k t" using jk by simp
        have "k - j \<le> length (drop j t) \<and> filter_matches f (take (k - j) (drop j t)) \<and>
              filter_matches g (drop (k - j) (drop j t))"
          using j(2) k(1,3) c d by simp
        then have "filter_matches (f @ g) (drop j t)" using Cons.IH by blast
        then show "filter_matches ((c # f) @ g) t"
          using True jk(2) filter_matches_hash_Cons[of "f @ g" t] by auto
      qed
    next
      case False
      show ?thesis
      proof (cases t)
        case Nil
        then show ?thesis using np False by simp
      next
        case (Cons d t')
        let ?e = "fold_case d = fold_case c"
        have "filter_matches ((c # f) @ g) t \<longleftrightarrow> ?e \<and> filter_matches (f @ g) t'"
          using np False Cons by simp
        also have "\<dots> \<longleftrightarrow> ?e \<and> (\<exists>k. k \<le> length t' \<and> filter_matches f (take k t') \<and>
                                  filter_matches g (drop k t'))"
          using Cons.IH by simp
        also have "\<dots> \<longleftrightarrow> (\<exists>k. k \<le> length t \<and> filter_matches (c # f) (take k t) \<and>
                                  filter_matches g (drop k t))"
        proof
          assume "?e \<and> (\<exists>k. k \<le> length t' \<and> filter_matches f (take k t') \<and>
                                  filter_matches g (drop k t'))"
          then obtain k where "?e" "k \<le> length t'" "filter_matches f (take k t')"
            "filter_matches g (drop k t')" by blast
          then have "Suc k \<le> length t \<and> filter_matches (c # f) (take (Suc k) t) \<and>
                     filter_matches g (drop (Suc k) t)"
            using np False Cons by simp
          then show "\<exists>k. k \<le> length t \<and> filter_matches (c # f) (take k t) \<and>
                                  filter_matches g (drop k t)" by blast
        next
          assume "\<exists>k. k \<le> length t \<and> filter_matches (c # f) (take k t) \<and>
                                  filter_matches g (drop k t)"
          then obtain k where k: "k \<le> length t" "filter_matches (c # f) (take k t)"
                                  "filter_matches g (drop k t)" by blast
          then obtain k' where k': "k = Suc k'" using np False by (cases k) auto
          then have "?e" "k' \<le> length t'" "filter_matches f (take k' t')"
            "filter_matches g (drop k' t')"
            using k np False Cons by auto
          then show "?e \<and> (\<exists>k. k \<le> length t' \<and> filter_matches f (take k t') \<and>
                                  filter_matches g (drop k t'))" by blast
        qed
        finally show ?thesis .
      qed
    qed
  qed
qed

lemma filter_matches_before_hash:
  "filter_matches (p @ ''#'') t \<longleftrightarrow> prefix_matches p t"
  using filter_matches_append[of p "''#''" t] filter_matches_hash
  by (simp add: prefix_matches_def list_ex_upt del: upt_Suc filter_matches.simps)

lemma prefix_matches_literal:
  assumes "literal p"
  shows "prefix_matches p t \<longleftrightarrow> same_text (take (length p) t) p"
  using filter_matches_before_hash[of p t] filter_matches_prefix[OF assms, of t] by simp


lemma filter_matches_separators:
  assumes "CHR ''#'' \<notin> set f" and "filter_matches f t"
  shows "separators t = separators f"
  using assms
proof (induction f arbitrary: t)
  case Nil
  then show ?case by simp
next
  case (Cons c f)
  then have nh: "c \<noteq> CHR ''#''" "CHR ''#'' \<notin> set f" by auto
  show ?case
  proof (cases "c = CHR ''+''")
    case True
    then obtain k where k: "CHR ''/'' \<notin> set (take k t)" "filter_matches f (drop k t)"
      using Cons.prems(2) by (auto simp: list_ex_upt simp del: upt_Suc)
    have "separators t = separators (take k t @ drop k t)" by simp
    also have "\<dots> = separators (drop k t)"
      using k(1) unfolding separators_def filter_append
      by (auto simp: filter_empty_conv)
    also have "\<dots> = separators f" using Cons.IH[OF nh(2) k(2)] .
    finally show ?thesis using True by (simp add: separators_def)
  next
    case False
    then obtain d t' where t: "t = d # t'" "fold_case d = fold_case c" "filter_matches f t'"
      using Cons.prems(2) nh(1) by (cases t) auto
    have "d = CHR ''/'' \<longleftrightarrow> c = CHR ''/''"
      using t(2) fold_case_slash by metis
    then show ?thesis using t(1) Cons.IH[OF nh(2) t(3)] by (simp add: separators_def)
  qed
qed


subsection \<open>Example stores\<close>

lemma example_subscribed_serving: "serving example_subscribed"
  by code_simp

lemma example_subscribed_plain:
  "list_all (\<lambda>row. plain (sub_topic row)) (aedes_subscriptions (store example_subscribed))"
  by code_simp

lemma example_retained_serving: "serving example_retained"
  by code_simp

lemma example_retained_plain:
  "list_all (\<lambda>row. plain (ret_topic row)) (aedes_retained (store example_retained))"
  "list_all (\<lambda>row. plain (sub_topic row)) (aedes_subscriptions (store example_retained))"
  by code_simp+


section \<open>Filters without wildcards\<close>

text \<open>
  Claim C1 says that literal characters are escaped, so that a topic without wildcards
  selects the subscriptions with exactly that topic.  \<open>sqlPattern\<close> copies the
  characters of the filter: the filter \<^verbatim>\<open>a.b\<close> becomes the pattern \<^verbatim>\<open>^a.b$\<close>.  With
  the retained topics \<^verbatim>\<open>a\<close>, \<^verbatim>\<open>A/b\<close>, \<^verbatim>\<open>a/b/c\<close>, \<^verbatim>\<open>a/b/x/c\<close> and \<^verbatim>\<open>axb\<close> the
  read with the filter \<^verbatim>\<open>a.b\<close> yields \<^verbatim>\<open>A/b\<close> and \<^verbatim>\<open>axb\<close>, and on a store with
  subscriptions to \<^verbatim>\<open>a/b\<close>, \<^verbatim>\<open>A/B\<close> and \<^verbatim>\<open>axb\<close> (and none to \<^verbatim>\<open>a.b\<close>)
  \<^verbatim>\<open>subscriptionsByTopic\<close> returns the three.  The comparison ignores the case of
  letters: with the topic \<^verbatim>\<open>a/b\<close> the subscription to \<^verbatim>\<open>A/B\<close> is returned as
  well.
\<close>

theorem unescaped_dot_counterexample:
  "sqlPattern ''a.b'' = ''^a.b$'' \<and>
   fst (createRetainedStreamCombi [''a.b''] example_retained) =
     Inr [\<lparr>rp_topic = ''A/b'', rp_payload = ''on'', rp_qos = 1\<rparr>,
          \<lparr>rp_topic = ''axb'', rp_payload = ''on'', rp_qos = 1\<rparr>] \<and>
   fst (subscriptionsByTopic ''a.b'' example_subscribed) =
     Inr [\<lparr>s_clientId = ''c1'', s_topic = ''a/b'', s_qos = 1\<rparr>,
          \<lparr>s_clientId = ''c2'', s_topic = ''A/B'', s_qos = 1\<rparr>,
          \<lparr>s_clientId = ''c1'', s_topic = ''axb'', s_qos = 0\<rparr>] \<and>
   fst (subscriptionsByTopic ''a/b'' example_subscribed) =
     Inr [\<lparr>s_clientId = ''c1'', s_topic = ''a/b'', s_qos = 1\<rparr>,
          \<lparr>s_clientId = ''c2'', s_topic = ''A/B'', s_qos = 1\<rparr>]"
  by code_simp

text \<open>
  Claim C1, amended.  For every filter \<open>f\<close> the pattern is the filter between the two
  anchors with each \<^verbatim>\<open>+\<close> and \<^verbatim>\<open>#\<close> replaced and every other character copied as
  it is; for a topic \<open>T\<close> without wildcard characters and without characters that
  have a meaning in the pattern language it is \<open>T\<close> between the anchors.  When such a
  \<open>T\<close> and the stored topics are printable text, \<^verbatim>\<open>subscriptionsByTopic\<close> on a serving
  component returns exactly the stored subscriptions whose topic is \<open>T\<close> up to the
  case of letters, in the order of the relation.
\<close>

theorem subscriptionsByTopic_literal:
  "sqlPattern f = ''^'' @ concat (map token f) @ ''$'' \<and>
   (literal T \<longrightarrow> sqlPattern T = ''^'' @ T @ ''$'') \<and>
   (serving s \<and> literal T \<and> plain T \<and>
    list_all (\<lambda>row. plain (sub_topic row)) (aedes_subscriptions (store s)) \<longrightarrow>
      fst (subscriptionsByTopic T s) =
        Inr (map (\<lambda>row. \<lparr>s_clientId = sub_client_id row, s_topic = sub_topic row,
                          s_qos = sub_qos row\<rparr>)
               (filter (\<lambda>row. same_text (sub_topic row) T) (aedes_subscriptions (store s)))))"
proof -
  have a: "sqlPattern T = ''^'' @ T @ ''$''" if "literal T"
  proof -
    have "concat (map token T) = T" using that
      by (induction T) (auto simp: literal_def token_def wildcard_def)
    then show ?thesis by (simp add: sqlPattern_tokens)
  qed
  have b: "fst (subscriptionsByTopic T s) =
        Inr (map (\<lambda>row. \<lparr>s_clientId = sub_client_id row, s_topic = sub_topic row,
                          s_qos = sub_qos row\<rparr>)
               (filter (\<lambda>row. same_text (sub_topic row) T) (aedes_subscriptions (store s))))"
    if "serving s" "literal T" "plain T"
      "list_all (\<lambda>row. plain (sub_topic row)) (aedes_subscriptions (store s))"
    using subscriptionsByTopic_rows[OF that(1) literal_regexp_free[OF that(2)] that(3,4)]
      filter_matches_exact[OF that(2)] by simp
  show ?thesis using sqlPattern_tokens[of f] a b by blast
qed

theorem subscriptionsByTopic_literal_witness:
  "serving example_subscribed \<and> literal ''a/b'' \<and> plain ''a/b'' \<and>
   list_all (\<lambda>row. plain (sub_topic row)) (aedes_subscriptions (store example_subscribed)) \<and>
   sqlPattern ''a.b'' = ''^'' @ concat (map token ''a.b'') @ ''$'' \<and>
   sqlPattern ''a/b'' = ''^'' @ ''a/b'' @ ''$'' \<and>
   fst (subscriptionsByTopic ''a/b'' example_subscribed) =
     Inr [\<lparr>s_clientId = ''c1'', s_topic = ''a/b'', s_qos = 1\<rparr>,
          \<lparr>s_clientId = ''c2'', s_topic = ''A/B'', s_qos = 1\<rparr>]"
proof -
  have l: "literal ''a/b''" "plain ''a/b''" by code_simp+
  have r: "map (\<lambda>row. \<lparr>s_clientId = sub_client_id row, s_topic = sub_topic row, s_qos = sub_qos row\<rparr>)
             (filter (\<lambda>row. same_text (sub_topic row) ''a/b'')
                (aedes_subscriptions (store example_subscribed)))
           = [\<lparr>s_clientId = ''c1'', s_topic = ''a/b'', s_qos = 1\<rparr>,
              \<lparr>s_clientId = ''c2'', s_topic = ''A/B'', s_qos = 1\<rparr>]"
    by code_simp
  note t = subscriptionsByTopic_literal[of "''a.b''" "''a/b''" example_subscribed]
  show ?thesis
    using t example_subscribed_serving l example_subscribed_plain unfolding r by blast
qed

section \<open>Filters that end in the multi-level wildcard\<close>

text \<open>
  Claim C2 says that \<^verbatim>\<open>a/#\<close> matches \<^verbatim>\<open>a\<close>, \<^verbatim>\<open>a/b\<close> and \<^verbatim>\<open>a/b/c\<close>.  The
  pattern of \<^verbatim>\<open>a/#\<close> is \<^verbatim>\<open>^a/.*$\<close>, which needs the separator after \<^verbatim>\<open>a\<close>: of the
  retained topics \<^verbatim>\<open>a\<close>, \<^verbatim>\<open>A/b\<close>, \<^verbatim>\<open>a/b/c\<close>, \<^verbatim>\<open>a/b/x/c\<close> and \<^verbatim>\<open>axb\<close> the read
  with the filter \<^verbatim>\<open>a/#\<close> leaves \<^verbatim>\<open>a\<close> out.
\<close>

theorem hash_parent_counterexample:
  "sqlPattern ''a/#'' = ''^a/.*$'' \<and>
   map ret_topic (aedes_retained (store example_retained)) =
     [''a'', ''A/b'', ''a/b/c'', ''a/b/x/c'', ''axb''] \<and>
   fst (createRetainedStreamCombi [''a/#''] example_retained) =
     Inr [\<lparr>rp_topic = ''A/b'', rp_payload = ''on'', rp_qos = 1\<rparr>,
          \<lparr>rp_topic = ''a/b/c'', rp_payload = ''on'', rp_qos = 1\<rparr>,
          \<lparr>rp_topic = ''a/b/x/c'', rp_payload = ''on'', rp_qos = 1\<rparr>]"
  by code_simp

text \<open>
  Claim C2, amended.  Let the part \<open>p\<close> of a filter \<open>p#\<close> before the wildcard have no
  character with a meaning in the pattern language, and let \<open>p\<close> and the stored topics
  be printable text.  Then both operations select exactly the rows whose topic has a
  beginning that \<open>p\<close> accepts, whatever follows it.  When \<open>p\<close> has no wildcard either,
  these are the topics that begin with the text \<open>p\<close> up to the case of letters: for
  \<^verbatim>\<open>a/#\<close> the topics that begin with \<^verbatim>\<open>a/\<close> or \<^verbatim>\<open>A/\<close>.
\<close>

theorem hash_matches_prefix:
  assumes "serving s" and "regexp_free p" and "plain p"
    and "list_all (\<lambda>row. plain (sub_topic row)) (aedes_subscriptions (store s))"
    and "list_all (\<lambda>row. plain (ret_topic row)) (aedes_retained (store s))"
  shows "fst (subscriptionsByTopic (p @ ''#'') s) =
           Inr (map (\<lambda>row. \<lparr>s_clientId = sub_client_id row, s_topic = sub_topic row,
                             s_qos = sub_qos row\<rparr>)
                  (filter (\<lambda>row. prefix_matches p (sub_topic row))
                     (aedes_subscriptions (store s)))) \<and>
         fst (createRetainedStreamCombi [p @ ''#''] s) =
           Inr (map (\<lambda>row. \<lparr>rp_topic = ret_topic row, rp_payload = ret_payload row,
                             rp_qos = ret_qos row\<rparr>)
                  (filter (\<lambda>row. prefix_matches p (ret_topic row))
                     (aedes_retained (store s)))) \<and>
         (literal p \<longrightarrow> (\<forall>t. prefix_matches p t \<longleftrightarrow> same_text (take (length p) t) p))"
proof -
  have rf: "regexp_free (p @ ''#'')"
    using assms(2) by (simp add: regexp_free_def special_def)
  have gr: "plain (p @ ''#'')"
    using assms(3) by (simp add: plain_def printable_def)
  show ?thesis
    using subscriptionsByTopic_rows[OF assms(1) rf gr assms(4)]
      createRetainedStreamCombi_rows[OF assms(1) _ _ _ assms(5), of "[p @ ''#'']"] rf gr
      filter_matches_before_hash[of p] prefix_matches_literal[of p]
    by simp
qed

theorem hash_matches_prefix_witness:
  "serving example_retained \<and> regexp_free ''a/'' \<and> plain ''a/'' \<and> literal ''a/'' \<and>
   list_all (\<lambda>row. plain (sub_topic row)) (aedes_subscriptions (store example_retained)) \<and>
   list_all (\<lambda>row. plain (ret_topic row)) (aedes_retained (store example_retained)) \<and>
   fst (createRetainedStreamCombi [''a/#''] example_retained) =
     Inr [\<lparr>rp_topic = ''A/b'', rp_payload = ''on'', rp_qos = 1\<rparr>,
          \<lparr>rp_topic = ''a/b/c'', rp_payload = ''on'', rp_qos = 1\<rparr>,
          \<lparr>rp_topic = ''a/b/x/c'', rp_payload = ''on'', rp_qos = 1\<rparr>] \<and>
   (\<forall>t. prefix_matches ''a/'' t \<longleftrightarrow> same_text (take (length ''a/'') t) ''a/'')"
proof -
  have l: "regexp_free ''a/''" "plain ''a/''" "literal ''a/''" by code_simp+
  have r: "map (\<lambda>row. \<lparr>rp_topic = ret_topic row, rp_payload = ret_payload row, rp_qos = ret_qos row\<rparr>)
             (filter (\<lambda>row. prefix_matches ''a/'' (ret_topic row))
                (aedes_retained (store example_retained)))
           = [\<lparr>rp_topic = ''A/b'', rp_payload = ''on'', rp_qos = 1\<rparr>,
              \<lparr>rp_topic = ''a/b/c'', rp_payload = ''on'', rp_qos = 1\<rparr>,
              \<lparr>rp_topic = ''a/b/x/c'', rp_payload = ''on'', rp_qos = 1\<rparr>]"
    by code_simp
  note t = hash_matches_prefix[OF example_retained_serving l(1,2) example_retained_plain(2,1)]
  have a: "fst (createRetainedStreamCombi [''a/#''] example_retained) =
     Inr [\<lparr>rp_topic = ''A/b'', rp_payload = ''on'', rp_qos = 1\<rparr>,
          \<lparr>rp_topic = ''a/b/c'', rp_payload = ''on'', rp_qos = 1\<rparr>,
          \<lparr>rp_topic = ''a/b/x/c'', rp_payload = ''on'', rp_qos = 1\<rparr>]"
    using t[THEN conjunct2, THEN conjunct1] unfolding r by simp
  have b: "\<forall>t. prefix_matches ''a/'' t \<longleftrightarrow> same_text (take (length ''a/'') t) ''a/''"
    using t[THEN conjunct2, THEN conjunct2] l(3) by blast
  show ?thesis using example_retained_serving l example_retained_plain a b by blast
qed

section \<open>Filters with the single-level wildcard\<close>

text \<open>
  Claim C9 is stated for every filter that contains \<^verbatim>\<open>+\<close>.  The other characters of
  the filter are read as a pattern too.  The filter \<^verbatim>\<open>(/+/)*\<close>, whose levels are
  \<^verbatim>\<open>(\<close>, \<^verbatim>\<open>+\<close> and \<^verbatim>\<open>)*\<close>, selects the topic \<^verbatim>\<open>/a//b/\<close>: the one \<^verbatim>\<open>+\<close> has matched
  \<^verbatim>\<open>a\<close> and \<^verbatim>\<open>b\<close>, and the topic has four separators where the filter has two.  The
  filter \<^verbatim>\<open>$SYS/+/load\<close> does not select the topic \<^verbatim>\<open>$SYS/b1/load\<close>.
\<close>

theorem plus_counterexample:
  "separators ''(/+/)*'' = 2 \<and> separators ''/a//b/'' = 4 \<and>
   fst (createRetainedStreamCombi [''(/+/)*''] example_odd) =
     Inr [\<lparr>rp_topic = ''/a//b/'', rp_payload = ''on'', rp_qos = 1\<rparr>] \<and>
   fst (createRetainedStreamCombi [''$SYS/+/load''] example_odd) = Inr []"
  by code_simp

text \<open>
  Claim C9, amended.  Let the characters of a filter other than the wildcards have no
  meaning in the pattern language, and let the filter and the stored topics be printable
  text.  Then both operations select exactly the rows whose topic \<open>filter_matches\<close>
  accepts, where each \<^verbatim>\<open>+\<close> stands for one non-empty run of characters other than the
  separator and every other character for itself up to the case of letters; when the
  filter has no \<^verbatim>\<open>#\<close>, every accepted topic has as many separators as the filter.
  The witness is the filter \<^verbatim>\<open>a/+/c\<close> with the retained topics \<^verbatim>\<open>a/b/c\<close> and
  \<^verbatim>\<open>a/b/x/c\<close>.
\<close>

theorem plus_matches_one_level:
  assumes "serving s" and "regexp_free f" and "plain f"
    and "list_all (\<lambda>row. plain (sub_topic row)) (aedes_subscriptions (store s))"
    and "list_all (\<lambda>row. plain (ret_topic row)) (aedes_retained (store s))"
  shows "fst (subscriptionsByTopic f s) =
           Inr (map (\<lambda>row. \<lparr>s_clientId = sub_client_id row, s_topic = sub_topic row,
                             s_qos = sub_qos row\<rparr>)
                  (filter (\<lambda>row. filter_matches f (sub_topic row))
                     (aedes_subscriptions (store s)))) \<and>
         fst (createRetainedStreamCombi [f] s) =
           Inr (map (\<lambda>row. \<lparr>rp_topic = ret_topic row, rp_payload = ret_payload row,
                             rp_qos = ret_qos row\<rparr>)
                  (filter (\<lambda>row. filter_matches f (ret_topic row)) (aedes_retained (store s)))) \<and>
         (CHR ''#'' \<notin> set f \<longrightarrow> (\<forall>t. filter_matches f t \<longrightarrow> separators t = separators f))"
  using subscriptionsByTopic_rows[OF assms(1,2,3,4)]
    createRetainedStreamCombi_rows[OF assms(1) _ _ _ assms(5), of "[f]"] assms(2,3)
    filter_matches_separators[of f]
  by simp

theorem plus_matches_one_level_witness:
  "serving example_retained \<and> regexp_free ''a/+/c'' \<and> plain ''a/+/c'' \<and>
   list_all (\<lambda>row. plain (sub_topic row)) (aedes_subscriptions (store example_retained)) \<and>
   list_all (\<lambda>row. plain (ret_topic row)) (aedes_retained (store example_retained)) \<and>
   CHR ''#'' \<notin> set ''a/+/c'' \<and>
   filter_matches ''a/+/c'' ''a/b/c'' \<and> \<not> filter_matches ''a/+/c'' ''a/b/x/c'' \<and>
   fst (createRetainedStreamCombi [''a/+/c''] example_retained) =
     Inr [\<lparr>rp_topic = ''a/b/c'', rp_payload = ''on'', rp_qos = 1\<rparr>] \<and>
   separators ''a/b/c'' = separators ''a/+/c''"
proof -
  have l: "regexp_free ''a/+/c''" "plain ''a/+/c''" by code_simp+
  have h: "CHR ''#'' \<notin> set ''a/+/c''" by simp
  have m: "filter_matches ''a/+/c'' ''a/b/c''" "\<not> filter_matches ''a/+/c'' ''a/b/x/c''"
    by code_simp+
  have r: "map (\<lambda>row. \<lparr>rp_topic = ret_topic row, rp_payload = ret_payload row, rp_qos = ret_qos row\<rparr>)
             (filter (\<lambda>row. filter_matches ''a/+/c'' (ret_topic row))
                (aedes_retained (store example_retained)))
           = [\<lparr>rp_topic = ''a/b/c'', rp_payload = ''on'', rp_qos = 1\<rparr>]"
    by code_simp
  note t = plus_matches_one_level[OF example_retained_serving l example_retained_plain(2,1)]
  have a: "fst (createRetainedStreamCombi [''a/+/c''] example_retained) =
     Inr [\<lparr>rp_topic = ''a/b/c'', rp_payload = ''on'', rp_qos = 1\<rparr>]"
    using t[THEN conjunct2, THEN conjunct1] unfolding r by simp
  have n: "separators ''a/b/c'' = separators ''a/+/c''"
    using t[THEN conjunct2, THEN conjunct2] h m(1) by blast
  show ?thesis using example_retained_serving l example_retained_plain h m a n by blast
qed

section \<open>Retained messages: store, then read\<close>

lemma upsert_row:
  assumes "distinct (map key rows)" and "\<And>r. same r \<longleftrightarrow> key r = k"
    and "\<And>r. same r \<Longrightarrow> key (upd r) = key r" and "key new = k"
  shows "filter same (upsert same upd new rows) =
           (case filter same rows of [] \<Rightarrow> [new] | r0 # rs \<Rightarrow> [upd r0])"
proof (cases "list_ex same rows")
  case True
  then obtain r0 where r0: "r0 \<in> set rows" "same r0" by (auto simp: list_ex_iff)
  have s: "same = (\<lambda>r. key r = key r0)" using assms(2) r0(2) by auto
  have f0: "filter same rows = [r0]"
    unfolding s by (rule distinct_filter_key[OF assms(1) r0(1)])
  have d: "distinct (map key (upsert same upd new rows))"
    using upsert_distinct[of key rows same new upd] assms by simp
  have m: "upd r0 \<in> set (upsert same upd new rows)" using True r0 by (auto simp: upsert_def)
  have "key (upd r0) = key r0" using assms(3) r0(2) by simp
  then have "filter same (upsert same upd new rows) = [upd r0]"
    using distinct_filter_key[OF d m] unfolding s by simp
  then show ?thesis by (simp add: f0)
next
  case False
  then have "filter same rows = []" by (auto simp: filter_empty_conv list_ex_iff)
  then show ?thesis using False assms(2,4) by (simp add: upsert_def)
qed

lemma upsert_topics:
  assumes "\<And>r. ret_topic (upd r) = ret_topic r"
  shows "set (map ret_topic (upsert same upd new rows)) \<subseteq>
           insert (ret_topic new) (set (map ret_topic rows))"
  using assms by (auto simp: upsert_def)

lemma upsert_length:
  "length (upsert same upd new rows) = (if list_ex same rows then length rows else Suc (length rows))"
  by (simp add: upsert_def)

lemma storeRetained_collation: "collation (store (snd (storeRetained pk s))) = collation (store s)"
  by (simp add: storeRetained_def op_defs sql_storeRetained_def
      split: option.splits pool_state.splits)

lemma storeRetained_rows:
  assumes "serving s" and "varchar 512 (topic pk)" and "tinyint (qos pk)"
  shows "fst (storeRetained pk s) = Inr ()"
    and "serving (snd (storeRetained pk s))"
    and "aedes_retained (store (snd (storeRetained pk s))) =
           upsert (\<lambda>r. collation (store s) (ret_topic r) = collation (store s) (topic pk))
                  (\<lambda>r. r\<lparr>ret_payload := payload pk, ret_qos := qos pk,
                         ret_created_at := now (store s)\<rparr>)
                  \<lparr>ret_id = next_ret_id (store s), ret_topic = topic pk, ret_payload = payload pk,
                   ret_qos = qos pk, ret_created_at = now (store s)\<rparr>
                  (aedes_retained (store s))"
proof -
  let ?key = "\<lambda>r. collation (store s) (ret_topic r)"
  have sv: "ready s" "pool s = Some PoolOpen" "unique_keys (store s)"
    using assms(1) by (simp_all add: serving_def)
  show "fst (storeRetained pk s) = Inr ()"
    using sv assms(2,3) by (simp add: storeRetained_def op_defs sql_storeRetained_def)
  show rows: "aedes_retained (store (snd (storeRetained pk s))) =
           upsert (\<lambda>r. collation (store s) (ret_topic r) = collation (store s) (topic pk))
                  (\<lambda>r. r\<lparr>ret_payload := payload pk, ret_qos := qos pk,
                         ret_created_at := now (store s)\<rparr>)
                  \<lparr>ret_id = next_ret_id (store s), ret_topic = topic pk, ret_payload = payload pk,
                   ret_qos = qos pk, ret_created_at = now (store s)\<rparr>
                  (aedes_retained (store s))"
    using sv assms(2,3) by (simp add: storeRetained_def op_defs sql_storeRetained_def)
  have "distinct (map ?key (aedes_retained (store s)))"
    using sv(3) by (simp add: unique_keys_def)
  then have "distinct (map ?key (aedes_retained (store (snd (storeRetained pk s)))))"
    unfolding rows by (intro upsert_distinct) simp_all
  then show "serving (snd (storeRetained pk s))"
    using sv assms(2,3)
    by (simp add: storeRetained_def op_defs sql_storeRetained_def serving_def unique_keys_def)
qed

lemma createRetainedStreamCombi_store:
  "store (snd (createRetainedStreamCombi fs s)) = store s"
  "serving s \<Longrightarrow> serving (snd (createRetainedStreamCombi fs s))"
  by (auto simp: createRetainedStreamCombi_def op_defs sql_retainedMatching_def serving_def Let_def
      split: option.splits pool_state.splits sum.splits)

text \<open>The store step of \<^verbatim>\<open>storeRetained\<close>: afterwards one row has the key of the topic.\<close>

lemma stored_row:
  assumes "serving s" and "varchar 512 (topic pk)" and "tinyint (qos pk)"
  shows "map (\<lambda>r. (ret_topic r, ret_payload r, ret_qos r))
           (filter (\<lambda>r. collation (store s) (ret_topic r) = collation (store s) (topic pk))
              (aedes_retained (store (snd (storeRetained pk s))))) =
         [(case filter (\<lambda>r. collation (store s) (ret_topic r) = collation (store s) (topic pk))
                  (aedes_retained (store s)) of
             [] \<Rightarrow> topic pk | r0 # rs \<Rightarrow> ret_topic r0,
           payload pk, qos pk)]"
proof -
  let ?key = "\<lambda>r. collation (store s) (ret_topic r)"
  let ?same = "\<lambda>r. collation (store s) (ret_topic r) = collation (store s) (topic pk)"
  have d: "distinct (map ?key (aedes_retained (store s)))"
    using assms(1) by (simp add: serving_def unique_keys_def)
  show ?thesis
    unfolding storeRetained_rows(3)[OF assms]
    by (subst upsert_row[of ?key _ ?same "collation (store s) (topic pk)"])
       (use d in \<open>auto split: list.splits\<close>)
qed

text \<open>The read with a literal topic: the rows that the collation takes for the topic.\<close>

lemma read_literal:
  assumes "serving s" and "literal T" and "plain T \<and> trimmed T"
    and "list_all (\<lambda>r. plain (ret_topic r) \<and> trimmed (ret_topic r)) (aedes_retained (store s))"
    and "ignores_case (collation (store s))"
  shows "fst (createRetainedStreamCombi [T] s) =
           Inr (map (\<lambda>row. \<lparr>rp_topic = ret_topic row, rp_payload = ret_payload row,
                             rp_qos = ret_qos row\<rparr>)
                  (filter (\<lambda>r. collation (store s) (ret_topic r) = collation (store s) T)
                     (aedes_retained (store s))))"
proof -
  have "filter (\<lambda>row. same_text (ret_topic row) T) (aedes_retained (store s)) =
        filter (\<lambda>r. collation (store s) (ret_topic r) = collation (store s) T)
          (aedes_retained (store s))"
    using assms(3,4,5) by (intro filter_cong) (auto simp: ignores_case_def list_all_iff)
  moreover have "list_all (\<lambda>r. plain (ret_topic r)) (aedes_retained (store s))"
    using assms(4) by (simp add: list_all_iff)
  ultimately show ?thesis
    using createRetainedStreamCombi_rows[OF assms(1), of "[T]"] assms(2,3)
      literal_regexp_free[OF assms(2)] filter_matches_exact[OF assms(2)]
    by simp
qed

text \<open>
  Claim C4 is stated for every topic.  The topic is also used as the filter of the
  read, and there it is a pattern: after \<^verbatim>\<open>storeRetained\<close> on the topic
  \<^verbatim>\<open>$SYS/up\<close>, the stream of \<^verbatim>\<open>createRetainedStreamCombi(['$SYS/up'])\<close> is empty,
  because \<^verbatim>\<open>$\<close> in the pattern \<^verbatim>\<open>^$SYS/up$\<close> stands for the end of the topic.
  With a retained message on \<^verbatim>\<open>A/b\<close> in the store, a packet stored on \<^verbatim>\<open>a/B\<close>
  updates that row, and the read yields the topic \<^verbatim>\<open>A/b\<close>.  A topic of 513
  characters is refused by the store.
\<close>

theorem retained_dollar_counterexample:
  "fst (storeRetained (retained_packet_at ''$SYS/up'') example_state) = Inr () \<and>
   fst (createRetainedStreamCombi [''$SYS/up'']
          (snd (storeRetained (retained_packet_at ''$SYS/up'') example_state))) = Inr [] \<and>
   fst (storeRetained (retained_packet_at ''a/B'') example_retained) = Inr () \<and>
   fst (createRetainedStreamCombi [''a/B'']
          (snd (storeRetained (retained_packet_at ''a/B'') example_retained))) =
     Inr [\<lparr>rp_topic = ''A/b'', rp_payload = ''on'', rp_qos = 1\<rparr>] \<and>
   fst (storeRetained (retained_packet_at (replicate 513 CHR ''a'')) example_state) =
     Inl (StoreError ValueRefused) \<and>
   aedes_retained
     (store (snd (storeRetained (retained_packet_at (replicate 513 CHR ''a'')) example_state))) = []"
  by code_simp

text \<open>
  Claim C4, amended.  On a serving component let two packets on the topic \<open>T\<close> be
  stored one after the other, with a read in between, \<open>T\<close> having at most 512
  characters and each qos being at most 127.  The unique key of \<^verbatim>\<open>aedes_retained\<close>
  compares topics under the collation of the store; \<open>T'\<close> is the topic as the row
  for \<open>T\<close> spells it when there is such a row before the first store, and \<open>T\<close>
  otherwise.

  For every such \<open>T\<close>: both stores succeed, after each of them \<^verbatim>\<open>aedes_retained\<close>
  holds exactly one row for \<open>T\<close>, with the topic \<open>T'\<close> and the payload and qos of the
  packet stored last, and the second store adds no row.

  When moreover \<open>T\<close> has no wildcard character and no character with a meaning in the
  pattern language, \<open>T\<close> and the stored topics are printable text that does not end
  in a space, and the collation ignores nothing but the case of letters there: \<open>T'\<close>
  is \<open>T\<close> up to the case of letters, and \<^verbatim>\<open>createRetainedStreamCombi([T])\<close> after
  each store yields exactly one object, with the topic \<open>T'\<close> and the payload and qos
  of the packet stored last.
\<close>

theorem retained_round_trip:
  assumes "serving s" and "topic pk = T" and "topic pk2 = T"
    and "varchar 512 T" and "tinyint (qos pk)" and "tinyint (qos pk2)"
  shows "(let same = (\<lambda>r :: retained_row. collation (store s) (ret_topic r) = collation (store s) T);
              T' = (case filter same (aedes_retained (store s)) of
                      [] \<Rightarrow> T | r # rs \<Rightarrow> ret_topic r);
              s1 = snd (storeRetained pk s);
              r1 = createRetainedStreamCombi [T] s1;
              s2 = snd (storeRetained pk2 (snd r1));
              r2 = createRetainedStreamCombi [T] s2
          in fst (storeRetained pk s) = Inr () \<and> fst (storeRetained pk2 (snd r1)) = Inr () \<and>
             map (\<lambda>r. (ret_topic r, ret_payload r, ret_qos r))
               (filter same (aedes_retained (store s1))) = [(T', payload pk, qos pk)] \<and>
             map (\<lambda>r. (ret_topic r, ret_payload r, ret_qos r))
               (filter same (aedes_retained (store s2))) = [(T', payload pk2, qos pk2)] \<and>
             length (aedes_retained (store s2)) = length (aedes_retained (store s1)) \<and>
             (literal T \<and> plain T \<and> trimmed T \<and>
              list_all (\<lambda>r. plain (ret_topic r) \<and> trimmed (ret_topic r))
                (aedes_retained (store s)) \<and>
              ignores_case (collation (store s)) \<longrightarrow>
                same_text T' T \<and>
                fst r1 = Inr [\<lparr>rp_topic = T', rp_payload = payload pk, rp_qos = qos pk\<rparr>] \<and>
                fst r2 = Inr [\<lparr>rp_topic = T', rp_payload = payload pk2, rp_qos = qos pk2\<rparr>]))"
proof -
  define same :: "retained_row \<Rightarrow> bool"
    where "same = (\<lambda>r. collation (store s) (ret_topic r) = collation (store s) T)"
  define T' where "T' = (case filter same (aedes_retained (store s)) of
                           [] \<Rightarrow> T | r # rs \<Rightarrow> ret_topic r)"
  define s1 where "s1 = snd (storeRetained pk s)"
  define r1 where "r1 = createRetainedStreamCombi [T] s1"
  define s2 where "s2 = snd (storeRetained pk2 (snd r1))"
  define r2 where "r2 = createRetainedStreamCombi [T] s2"
  let ?triple = "\<lambda>r. (ret_topic r, ret_payload r, ret_qos r)"
  have w1: "varchar 512 (topic pk)" and w2: "varchar 512 (topic pk2)" using assms by simp_all
  note A = storeRetained_rows[OF assms(1) w1 assms(5), folded s1_def]
  have c1: "collation (store s1) = collation (store s)"
    unfolding s1_def by (rule storeRetained_collation)
  have st1: "store (snd r1) = store s1" and sv1: "serving (snd r1)"
    unfolding r1_def using createRetainedStreamCombi_store[where fs = "[T]" and s = s1] A(2) by simp_all
  note B = storeRetained_rows[OF sv1 w2 assms(6), folded s2_def]
  have c2: "collation (store s2) = collation (store s)"
    unfolding s2_def using storeRetained_collation[of pk2 "snd r1"] st1 c1 by simp
  have row1: "map ?triple (filter same (aedes_retained (store s1))) = [(T', payload pk, qos pk)]"
    using stored_row[OF assms(1) w1 assms(5), unfolded assms(2)]
    by (simp add: same_def T'_def s1_def)
  have row2: "map ?triple (filter same (aedes_retained (store s2))) = [(T', payload pk2, qos pk2)]"
  proof -
    from row1 obtain r where r: "filter same (aedes_retained (store s1)) = [r]" "ret_topic r = T'"
      by (auto simp: map_eq_Cons_conv)
    show ?thesis
      using stored_row[OF sv1 w2 assms(6), unfolded assms(3) st1 c1, folded same_def s2_def] r
      by simp
  qed
  have ex1: "list_ex same (aedes_retained (store s1))"
  proof -
    from row1 have "filter same (aedes_retained (store s1)) \<noteq> []" by auto
    then show ?thesis by (simp add: filter_empty_conv list_ex_iff)
  qed
  have len: "length (aedes_retained (store s2)) = length (aedes_retained (store s1))"
    using ex1 unfolding B(3) upsert_length by (simp add: st1 c1 same_def assms(3))
  have reads: "same_text T' T \<and>
              fst r1 = Inr [\<lparr>rp_topic = T', rp_payload = payload pk, rp_qos = qos pk\<rparr>] \<and>
              fst r2 = Inr [\<lparr>rp_topic = T', rp_payload = payload pk2, rp_qos = qos pk2\<rparr>]"
    if l: "literal T" and g: "plain T \<and> trimmed T"
      and gs: "list_all (\<lambda>r. plain (ret_topic r) \<and> trimmed (ret_topic r))
                 (aedes_retained (store s))"
      and ic: "ignores_case (collation (store s))"
  proof -
    have g1: "list_all (\<lambda>r. plain (ret_topic r) \<and> trimmed (ret_topic r))
                (aedes_retained (store s1))"
      using upsert_topics[of "\<lambda>r. r\<lparr>ret_payload := payload pk, ret_qos := qos pk,
                         ret_created_at := now (store s)\<rparr>"] gs g assms(2)
      unfolding A(3) by (fastforce simp: list_all_iff)
    have g2: "list_all (\<lambda>r. plain (ret_topic r) \<and> trimmed (ret_topic r))
                (aedes_retained (store s2))"
      using upsert_topics[of "\<lambda>r. r\<lparr>ret_payload := payload pk2, ret_qos := qos pk2,
                         ret_created_at := now (store (snd r1))\<rparr>"] g1 g assms(3)
      unfolding B(3) st1 by (fastforce simp: list_all_iff)
    have t: "collation (store s) T' = collation (store s) T" "plain T' \<and> trimmed T'"
    proof -
      from row1 obtain r where r: "filter same (aedes_retained (store s1)) = [r]" "ret_topic r = T'"
        by (auto simp: map_eq_Cons_conv)
      then have "r \<in> set (filter same (aedes_retained (store s1)))" by simp
      then have "same r" "r \<in> set (aedes_retained (store s1))" by simp_all
      then show "collation (store s) T' = collation (store s) T" "plain T' \<and> trimmed T'"
        using r(2) g1 by (auto simp: same_def list_all_iff)
    qed
    have a: "same_text T' T" using t g ic by (simp add: ignores_case_def)
    have b: "fst r1 = Inr [\<lparr>rp_topic = T', rp_payload = payload pk, rp_qos = qos pk\<rparr>]"
    proof -
      from row1 obtain r where r: "filter same (aedes_retained (store s1)) = [r]"
        "ret_topic r = T'" "ret_payload r = payload pk" "ret_qos r = qos pk"
        by (auto simp: map_eq_Cons_conv)
      show ?thesis
        unfolding r1_def using read_literal[OF A(2) l g g1] ic r
        by (simp add: c1 same_def)
    qed
    have c: "fst r2 = Inr [\<lparr>rp_topic = T', rp_payload = payload pk2, rp_qos = qos pk2\<rparr>]"
    proof -
      from row2 obtain r where r: "filter same (aedes_retained (store s2)) = [r]"
        "ret_topic r = T'" "ret_payload r = payload pk2" "ret_qos r = qos pk2"
        by (auto simp: map_eq_Cons_conv)
      show ?thesis
        unfolding r2_def using read_literal[OF B(2) l g g2] ic r
        by (simp add: c2 same_def)
    qed
    show ?thesis using a b c by simp
  qed
  have "fst (storeRetained pk s) = Inr ()" "fst (storeRetained pk2 (snd r1)) = Inr ()"
    using storeRetained_rows(1)[OF assms(1) w1 assms(5)] B(1) by simp_all
  then show ?thesis
    using row1 row2 len reads
    unfolding Let_def same_def[symmetric] T'_def[symmetric] s1_def[symmetric] r1_def[symmetric]
      s2_def[symmetric] r2_def[symmetric]
    by blast
qed

lemma example_retained_collation: "collation (store example_retained) = map fold_case"
  by (simp add: example_retained_def storeRetained_collation example_state_eq empty_db_def)

theorem retained_round_trip_witness:
  "serving example_retained \<and>
   topic ((retained_packet_at ''a/B'')\<lparr>payload := ''off''\<rparr>) = ''a/B'' \<and>
   topic ((retained_packet_at ''a/B'')\<lparr>payload := ''dim'', qos := 0\<rparr>) = ''a/B'' \<and>
   varchar 512 ''a/B'' \<and> tinyint (qos ((retained_packet_at ''a/B'')\<lparr>payload := ''off''\<rparr>)) \<and>
   tinyint (qos ((retained_packet_at ''a/B'')\<lparr>payload := ''dim'', qos := 0\<rparr>)) \<and>
   literal ''a/B'' \<and> plain ''a/B'' \<and> trimmed ''a/B'' \<and>
   list_all (\<lambda>r. plain (ret_topic r) \<and> trimmed (ret_topic r))
     (aedes_retained (store example_retained)) \<and>
   ignores_case (collation (store example_retained)) \<and>
   (let s1 = snd (storeRetained ((retained_packet_at ''a/B'')\<lparr>payload := ''off''\<rparr>) example_retained);
        r1 = createRetainedStreamCombi [''a/B''] s1;
        s2 = snd (storeRetained ((retained_packet_at ''a/B'')\<lparr>payload := ''dim'', qos := 0\<rparr>) (snd r1));
        r2 = createRetainedStreamCombi [''a/B''] s2
    in fst r1 = Inr [\<lparr>rp_topic = ''A/b'', rp_payload = ''off'', rp_qos = 1\<rparr>] \<and>
       fst r2 = Inr [\<lparr>rp_topic = ''A/b'', rp_payload = ''dim'', rp_qos = 0\<rparr>] \<and>
       length (aedes_retained (store s2)) = length (aedes_retained (store s1)))"
proof -
  let ?p1 = "(retained_packet_at ''a/B'')\<lparr>payload := ''off''\<rparr>"
  let ?p2 = "(retained_packet_at ''a/B'')\<lparr>payload := ''dim'', qos := 0\<rparr>"
  have t: "topic ?p1 = ''a/B''" "topic ?p2 = ''a/B''" by (simp_all add: retained_packet_at_def)
  have w: "varchar 512 ''a/B''" "tinyint (qos ?p1)" "tinyint (qos ?p2)"
    by (simp_all add: varchar_def tinyint_def retained_packet_at_def)
  have l: "literal ''a/B''" "plain ''a/B''" "trimmed ''a/B''" by code_simp+
  have gs: "list_all (\<lambda>r. plain (ret_topic r) \<and> trimmed (ret_topic r))
              (aedes_retained (store example_retained))"
    by code_simp
  have ic: "ignores_case (collation (store example_retained))"
    by (simp add: example_retained_collation ignores_case_fold)
  have T': "(case filter (\<lambda>r. collation (store example_retained) (ret_topic r) =
                              collation (store example_retained) ''a/B'')
                   (aedes_retained (store example_retained)) of
               [] \<Rightarrow> ''a/B'' | r # rs \<Rightarrow> ret_topic r) = ''A/b''"
    unfolding example_retained_collation by code_simp
  have f: "payload ?p1 = ''off''" "qos ?p1 = 1" "payload ?p2 = ''dim''" "qos ?p2 = 0"
    by (simp_all add: retained_packet_at_def)
  note th = retained_round_trip[OF example_retained_serving t w, unfolded Let_def T' f]
  show ?thesis
    using th example_retained_serving t w l gs ic
    unfolding Let_def by blast
qed


section \<open>The states that serve requests\<close>

text \<open>
  The hypothesis \<open>serving\<close> of the theorems above holds after provisioning on a store
  that satisfies the constraints of the schema, and every operation keeps it; so do the
  events of the store.
\<close>

lemma keeps_reads:
  shows "keeps (sql_retainedMatching pats)" "keeps (sql_subscriptionsByClient c)"
    "keeps sql_countSubscriptions" "keeps sql_countClients" "keeps (sql_subscriptionsByTopic pat)"
    "keeps (sql_getClientList t)" "keeps (sql_outgoingStream c)" "keeps (sql_incomingGetPacket c m)"
    "keeps (sql_getWill c)" "keeps (sql_streamWill ids)" "keeps sql_createTable"
    "keeps (sql_addSubscriptions subs)" "keeps (sql_outgoingEnqueue vals)"
  by (simp_all add: keeps_def sql_retainedMatching_def sql_subscriptionsByClient_def
      sql_countSubscriptions_def sql_countClients_def sql_subscriptionsByTopic_def
      sql_getClientList_def sql_outgoingStream_def sql_incomingGetPacket_def sql_getWill_def
      sql_streamWill_def sql_createTable_def sql_addSubscriptions_def sql_outgoingEnqueue_def)

lemma keeps_createEvent: "keeps (sql_createEvent ev)"
  by (simp add: keeps_def sql_createEvent_def unique_keys_def)

lemma keeps_deletes:
  shows "keeps (sql_removeSubscriptions c topics)" "keeps (sql_cleanSubscriptions c)"
    "keeps (sql_outgoingClearMessageId c m)" "keeps (sql_incomingDelPacket c m)" "keeps (sql_delWill c)"
  by (simp_all add: keeps_def sql_removeSubscriptions_def sql_cleanSubscriptions_def
      sql_outgoingClearMessageId_def sql_incomingDelPacket_def sql_delWill_def unique_keys_def
      distinct_map_filter)

lemma keeps_storeRetained: "keeps (sql_storeRetained t p q)"
proof -
  have "distinct (map (\<lambda>r. w (ret_topic r)) (upsert (\<lambda>r. w (ret_topic r) = w t)
                  (\<lambda>r. r\<lparr>ret_payload := p, ret_qos := q, ret_created_at := n\<rparr>)
                  \<lparr>ret_id = i, ret_topic = t, ret_payload = p, ret_qos = q, ret_created_at = n\<rparr>
                  rows))" if "distinct (map (\<lambda>r. w (ret_topic r)) rows)" for rows n i
      and w :: "string \<Rightarrow> string"
    using that by (intro upsert_distinct) simp_all
  then show ?thesis by (simp add: keeps_def sql_storeRetained_def unique_keys_def)
qed

lemma keeps_incomingStorePacket: "keeps (sql_incomingStorePacket c m tp p q)"
proof -
  have "distinct (map (\<lambda>r. (inc_client_id r, inc_message_id r))
          (upsert (\<lambda>r. inc_client_id r = c \<and> inc_message_id r = m)
                  (\<lambda>r. r\<lparr>inc_topic := tp, inc_payload := p, inc_qos := q\<rparr>)
                  \<lparr>inc_id = k, inc_client_id = c, inc_message_id = m, inc_topic = tp,
                   inc_payload = p, inc_qos = q, inc_created_at = n\<rparr>
                  rows))" if "distinct (map (\<lambda>r. (inc_client_id r, inc_message_id r)) rows)" for rows n k
    using that by (intro upsert_distinct) auto
  then show ?thesis by (simp add: keeps_def sql_incomingStorePacket_def unique_keys_def)
qed

lemma keeps_putWill: "keeps (sql_putWill c tp p q r b)"
proof -
  have "distinct (map will_client_id
          (upsert (\<lambda>w. will_client_id w = c)
                  (\<lambda>w. w\<lparr>will_topic := tp, will_payload := p, will_qos := q,
                         will_retain_flag := r, will_broker_id := b, will_created_at := n\<rparr>)
                  \<lparr>will_id = k, will_client_id = c, will_topic = tp, will_payload = p,
                   will_qos = q, will_retain_flag = r, will_broker_id = b, will_created_at = n\<rparr>
                  rows))" if "distinct (map will_client_id rows)" for rows n k
    using that by (intro upsert_distinct) simp_all
  then show ?thesis by (simp add: keeps_def sql_putWill_def unique_keys_def)
qed

lemma keeps_outgoingUpdate: "keeps (sql_outgoingUpdate m du c tp p)"
proof -
  have ids: "map out_id (map (\<lambda>r. if P r then r\<lparr>out_message_id := Some m, out_dup_flag := du\<rparr>
                                    else r) rows) = map out_id rows"
    for rows and P :: "outgoing_row \<Rightarrow> bool"
    by (induction rows) auto
  have "unique_keys (snd (sql_outgoingUpdate m du c tp p d))" if u: "unique_keys d" for d
    using u by (simp add: sql_outgoingUpdate_def unique_keys_def ids del: map_map)
  then show ?thesis by (simp add: keeps_def)
qed

lemma keeps_fire_event: "keeps (fire_event ev)"
  by (simp add: keeps_def fire_event_def unique_keys_def distinct_map_filter)

lemmas keeps_statements =
  keeps_reads keeps_createEvent keeps_deletes keeps_storeRetained keeps_incomingStorePacket
  keeps_putWill keeps_outgoingUpdate

lemma pool_execute_serving:
  assumes "serving s" and "keeps run"
  shows "serving (snd (pool_execute q run s))"
  using assms by (auto simp: serving_def keeps_def pool_execute_def split: prod.splits)

lemma then_catch_serving:
  assumes "serving s" and "keeps run"
  shows "serving (snd (then_catch (pool_execute q run s) f))"
  using pool_execute_serving[OF assms, of q]
  by (auto simp: then_catch_def split: prod.splits sum.splits)

lemma then_catch_with_serving:
  assumes "serving s" and "\<And>v. keeps (run v)"
  shows "serving (snd (then_catch (pool_execute_with param q run s) f))"
proof (cases param)
  case None
  then show ?thesis using assms(1)
    by (simp add: pool_execute_with_def then_catch_def serving_def)
next
  case (Some v)
  then have "pool_execute_with param q run s = pool_execute q (run v) s"
    using assms(1) by (simp add: pool_execute_with_def serving_def)
  then show ?thesis using then_catch_serving[OF assms(1) assms(2)[of v]] by simp
qed

lemma operations_keep_serving:
  assumes "serving s"
  shows "serving (snd (storeRetained pk s))"
    and "serving (snd (createRetainedStreamCombi patterns s))"
    and "serving (snd (createRetainedStream pattern s))"
    and "serving (snd (addSubscriptions cl subs s))"
    and "serving (snd (removeSubscriptions cl topics s))"
    and "serving (snd (subscriptionsByClient cl s))"
    and "serving (snd (countOffline s))"
    and "serving (snd (subscriptionsByTopic pattern s))"
    and "serving (snd (cleanSubscriptions cl s))"
    and "serving (snd (getClientList t s))"
    and "serving (snd (outgoingEnqueueCombi ss pk s))"
    and "serving (snd (outgoingEnqueue sub pk s))"
    and "serving (snd (outgoingUpdate cl pk s))"
    and "serving (snd (outgoingClearMessageId cl pk s))"
    and "serving (snd (outgoingStream cl s))"
    and "serving (snd (incomingStorePacket cl pk s))"
    and "serving (snd (incomingGetPacket cl pk s))"
    and "serving (snd (incomingDelPacket cl pk s))"
    and "serving (snd (putWill cl pk s))"
    and "serving (snd (getWill cl s))"
    and "serving (snd (delWill cl s))"
    and "serving (snd (streamWill brokers s))"
proof -
  have r: "ready s" using assms by (simp add: serving_def)
  note tc = then_catch_serving[OF assms] then_catch_with_serving[OF assms]
  show "serving (snd (countOffline s))"
    using pool_execute_serving[OF pool_execute_serving[OF assms keeps_reads(3)] keeps_reads(4),
        of CountClients CountSubscriptions] r
    by (simp add: countOffline_def Let_def split: sum.splits)
  show "serving (snd (storeRetained pk s))"
    "serving (snd (createRetainedStreamCombi patterns s))"
    "serving (snd (createRetainedStream pattern s))"
    "serving (snd (addSubscriptions cl subs s))"
    "serving (snd (removeSubscriptions cl topics s))"
    "serving (snd (subscriptionsByClient cl s))"
    "serving (snd (subscriptionsByTopic pattern s))"
    "serving (snd (cleanSubscriptions cl s))"
    "serving (snd (getClientList t s))"
    "serving (snd (outgoingEnqueueCombi ss pk s))"
    "serving (snd (outgoingEnqueue sub pk s))"
    "serving (snd (outgoingUpdate cl pk s))"
    "serving (snd (outgoingClearMessageId cl pk s))"
    "serving (snd (outgoingStream cl s))"
    "serving (snd (incomingStorePacket cl pk s))"
    "serving (snd (incomingGetPacket cl pk s))"
    "serving (snd (incomingDelPacket cl pk s))"
    "serving (snd (putWill cl pk s))"
    "serving (snd (getWill cl s))"
    "serving (snd (delWill cl s))"
    "serving (snd (streamWill brokers s))"
    using r assms
    by (simp_all add: gated_defs Let_def tc keeps_statements del: countOffline_def)
qed

lemma run_setup_serving:
  assumes "unique_keys d"
  shows "serving (run_setup (AedesPersistenceMySQL os d))"
proof -
  let ?s = "AedesPersistenceMySQL os d"
  define good :: "(store_failure + unit) \<times> persistence \<Rightarrow> bool" where
    "good r \<longleftrightarrow> fst r = Inr () \<and> pool (snd r) = Some PoolOpen \<and> unique_keys (store (snd r))" for r
  have first: "good (pool_execute q sql_createTable ?s)" for q
    using assms by (simp add: good_def pool_execute_def sql_createTable_def AedesPersistenceMySQL_def)
  have tbl: "good (seq_execute r q sql_createTable)" if "good r" for r q
    using that by (cases r) (auto simp: good_def seq_execute_def pool_execute_def sql_createTable_def)
  have evt: "good (seq_execute r q (sql_createEvent ev))" if "good r" for r q ev
    using that
    by (cases r) (auto simp: good_def seq_execute_def pool_execute_def sql_createEvent_def unique_keys_def)
  have "good (createTables ?s)"
    unfolding createTables_def Let_def
    by (auto split: option.splits intro!: tbl evt first)
  then show ?thesis
    by (auto simp: run_setup_def setup_resume_def setup_statements_def serving_def good_def
        split: prod.splits sum.splits)
qed


end
